theory Spec2Isabelle
  imports Complex_Main
begin

section \<open>JavaScript values used by the scorer\<close>

text \<open>
  A JavaScript number is modelled as a finite rational or one of the three non-finite
  values. Every finite double is a rational, and the source only compares numbers with
  decimal constants, so a decimal literal denotes the rational it spells (\<open>99.6\<close> is
  \<open>996 / 10\<close>); rounding to 53 bits and overflow to Infinity are outside the model.
\<close>

datatype jsnum = Finite rat | PosInfinity | NegInfinity | NaN

text \<open>A value of TypeScript type \<open>unknown\<close>, as far as \<open>typeof\<close> tells values apart.\<close>

datatype jsval =
    JUndefined
  | JNull
  | JBool bool
  | JNumber jsnum
  | JString string
  | JObject

subsection \<open>\<open>String.prototype.trim\<close>\<close>

text \<open>
  A \<open>string\<close> is a list of bytes: the UTF-8 encoding of the JavaScript string. The
  characters \<open>trim\<close> strips are the WhiteSpace and LineTerminator code points: U+0009 to
  U+000D, U+0020, U+00A0, U+1680, U+2000 to U+200A, U+2028, U+2029, U+202F, U+205F, U+3000
  and U+FEFF, here by their encodings.
\<close>

definition whiteSpaceCodes :: "int list list" where
  "whiteSpaceCodes =
     [[9], [10], [11], [12], [13], [32], [194, 160], [225, 154, 128],
      [226, 128, 128], [226, 128, 129], [226, 128, 130], [226, 128, 131], [226, 128, 132],
      [226, 128, 133], [226, 128, 134], [226, 128, 135], [226, 128, 136], [226, 128, 137],
      [226, 128, 138], [226, 128, 168], [226, 128, 169], [226, 128, 175], [226, 129, 159],
      [227, 128, 128], [239, 187, 191]]"

definition startsWith :: "int list \<Rightarrow> string \<Rightarrow> bool" where
  "startsWith code s = (code \<noteq> [] \<and> map of_char (take (length code) s) = code)"

text \<open>\<open>stripLeading codes s\<close> removes from the front of \<open>s\<close> every character encoded in \<open>codes\<close>.\<close>

function stripLeading :: "int list list \<Rightarrow> string \<Rightarrow> string" where
  "stripLeading codes s =
     (case find (\<lambda>code. startsWith code s) codes of
        None \<Rightarrow> s
      | Some code \<Rightarrow> stripLeading codes (drop (length code) s))"
  by pat_completeness auto
termination
proof (relation "measure (\<lambda>(codes, s). length s)")
  show "wf (measure (\<lambda>(codes, s). length s))" by simp
next
  fix codes :: "int list list" and s :: string and code
  assume "find (\<lambda>code. startsWith code s) codes = Some code"
  then have "startsWith code s" by (auto simp: find_Some_iff)
  then have "code \<noteq> []" and "length (take (length code) s) = length code"
    unfolding startsWith_def by (simp, metis length_map)
  then have "0 < length code" and "length code \<le> length s" by auto
  then have "length s - length code < length s" by linarith
  then show "((codes, drop (length code) s), (codes, s)) \<in> measure (\<lambda>(codes, s). length s)"
    by simp
qed

declare stripLeading.simps [simp del]

definition trim :: "string \<Rightarrow> string" where
  "trim s = rev (stripLeading (map rev whiteSpaceCodes) (rev (stripLeading whiteSpaceCodes s)))"

subsection \<open>\<open>Number(string)\<close>: the StringToNumber grammar\<close>

definition digitValue :: "char \<Rightarrow> int option" where
  "digitValue c =
     (let n = (of_char c :: int) in
      if 48 \<le> n \<and> n \<le> 57 then Some (n - 48)
      else if 97 \<le> n \<and> n \<le> 102 then Some (n - 87)
      else if 65 \<le> n \<and> n \<le> 70 then Some (n - 55)
      else None)"

definition isDigitOfBase :: "int \<Rightarrow> char \<Rightarrow> bool" where
  "isDigitOfBase b c = (case digitValue c of None \<Rightarrow> False | Some d \<Rightarrow> d < b)"

definition isDecimalDigit :: "char \<Rightarrow> bool" where
  "isDecimalDigit c = isDigitOfBase 10 c"

definition digitsValue :: "int \<Rightarrow> string \<Rightarrow> int" where
  "digitsValue b ds = foldl (\<lambda>acc c. acc * b + (case digitValue c of None \<Rightarrow> 0 | Some d \<Rightarrow> d)) 0 ds"

definition scale10 :: "rat \<Rightarrow> int \<Rightarrow> rat" where
  "scale10 x e = (if 0 \<le> e then x * 10 ^ nat e else x / 10 ^ nat (- e))"

text \<open>ExponentPart: nothing, or \<open>e\<close>/\<open>E\<close>, an optional sign and at least one digit.\<close>

definition parseExponent :: "string \<Rightarrow> int option" where
  "parseExponent r =
     (case r of
        [] \<Rightarrow> Some 0
      | c # t \<Rightarrow>
          if c = CHR ''e'' \<or> c = CHR ''E'' then
            (let neg = (case t of [] \<Rightarrow> False | d # _ \<Rightarrow> d = CHR ''-'');
                 signed = (case t of [] \<Rightarrow> False | d # _ \<Rightarrow> d = CHR ''-'' \<or> d = CHR ''+'');
                 ds = (if signed then tl t else t)
             in if ds \<noteq> [] \<and> list_all isDecimalDigit ds
                then Some (if neg then - digitsValue 10 ds else digitsValue 10 ds)
                else None)
          else None)"

text \<open>
  StrUnsignedDecimalLiteral: \<open>Infinity\<close>, or digits with an optional fraction and an
  optional exponent; at least one digit before or after the point.
\<close>

definition StrUnsignedDecimalLiteral :: "string \<Rightarrow> jsnum" where
  "StrUnsignedDecimalLiteral s =
     (if s = ''Infinity'' then PosInfinity
      else
        let ip = takeWhile isDecimalDigit s;
            r1 = dropWhile isDecimalDigit s;
            dotted = (case r1 of [] \<Rightarrow> False | c # _ \<Rightarrow> c = CHR ''.'');
            fp = (if dotted then takeWhile isDecimalDigit (tl r1) else []);
            r2 = (if dotted then dropWhile isDecimalDigit (tl r1) else r1)
        in if ip = [] \<and> fp = [] then NaN
           else case parseExponent r2 of
                  None \<Rightarrow> NaN
                | Some e \<Rightarrow> Finite (scale10 (of_int (digitsValue 10 (ip @ fp))) (e - int (length fp))))"

definition negate :: "jsnum \<Rightarrow> jsnum" where
  "negate x = (case x of Finite q \<Rightarrow> Finite (- q) | PosInfinity \<Rightarrow> NegInfinity
               | NegInfinity \<Rightarrow> PosInfinity | NaN \<Rightarrow> NaN)"

text \<open>NonDecimalIntegerLiteral: \<open>0x\<close>, \<open>0o\<close>, \<open>0b\<close> and digits of that base, unsigned.\<close>

definition nonDecimalBase :: "string \<Rightarrow> int option" where
  "nonDecimalBase s =
     (case s of
        z # x # _ \<Rightarrow>
          if z \<noteq> CHR ''0'' then None
          else if x = CHR ''x'' \<or> x = CHR ''X'' then Some 16
          else if x = CHR ''o'' \<or> x = CHR ''O'' then Some 8
          else if x = CHR ''b'' \<or> x = CHR ''B'' then Some 2
          else None
      | _ \<Rightarrow> None)"

definition StringToNumber :: "string \<Rightarrow> jsnum" where
  "StringToNumber str =
     (let s = trim str in
      if s = [] then Finite 0
      else case nonDecimalBase s of
             Some b \<Rightarrow>
               (let ds = drop 2 s in
                if ds \<noteq> [] \<and> list_all (isDigitOfBase b) ds
                then Finite (of_int (digitsValue b ds)) else NaN)
           | None \<Rightarrow>
               if hd s = CHR ''-'' then negate (StrUnsignedDecimalLiteral (tl s))
               else if hd s = CHR ''+'' then StrUnsignedDecimalLiteral (tl s)
               else StrUnsignedDecimalLiteral s)"

subsection \<open>\<open>String(number)\<close>: Number::toString in radix 10\<close>

text \<open>
  The digits printed are those of the exact value (for a double JavaScript prints the
  shortest digits that read back as the same double); the notation, plain or exponential,
  follows Number::toString.
\<close>

definition digitChar :: "int \<Rightarrow> char" where
  "digitChar d = char_of (48 + d)"

function natDigits :: "int \<Rightarrow> string" where
  "natDigits n = (if n < 10 then [digitChar n] else natDigits (n div 10) @ [digitChar (n mod 10)])"
  by pat_completeness auto
termination
  by (relation "measure (\<lambda>n. nat n)") auto

declare natDigits.simps [simp del]

text \<open>
  \<open>decimalOf fuel q m\<close> multiplies the positive \<open>q\<close> by ten until it is an integer and
  returns that integer with the number of multiplications. The fuel bounds the
  fraction digits (a double has at most 1074).
\<close>

fun decimalOf :: "nat \<Rightarrow> rat \<Rightarrow> int \<Rightarrow> int \<times> int" where
  "decimalOf 0 q m = (\<lfloor>q\<rfloor>, m)"
| "decimalOf (Suc fuel) q m =
     (if of_int \<lfloor>q\<rfloor> = q then (\<lfloor>q\<rfloor>, m) else decimalOf fuel (q * 10) (m + 1))"

function stripZeros :: "int \<Rightarrow> int \<Rightarrow> int \<times> int" where
  "stripZeros s z = (if 0 < s \<and> s mod 10 = 0 then stripZeros (s div 10) (z + 1) else (s, z))"
  by pat_completeness auto
termination
  by (relation "measure (\<lambda>(s, z). nat s)") auto

declare stripZeros.simps [simp del]

text \<open>
  Number::toString for a positive value with digits \<open>ds\<close> (\<open>k\<close> of them) and decimal
  point after the \<open>n\<close>-th digit: plain notation for \<open>-6 < n \<le> 21\<close>, exponential otherwise.
\<close>

definition formatDigits :: "string \<Rightarrow> int \<Rightarrow> string" where
  "formatDigits ds n =
     (let k = int (length ds) in
      if k \<le> n \<and> n \<le> 21 then ds @ replicate (nat (n - k)) CHR ''0''
      else if 0 < n \<and> n \<le> 21 then take (nat n) ds @ ''.'' @ drop (nat n) ds
      else if - 6 < n \<and> n \<le> 0 then ''0.'' @ replicate (nat (- n)) CHR ''0'' @ ds
      else
        (let e = n - 1;
             es = (if e < 0 then ''-'' else ''+'') @ natDigits \<bar>e\<bar>
         in if k = 1 then ds @ ''e'' @ es
            else take 1 ds @ ''.'' @ drop 1 ds @ ''e'' @ es))"

definition positiveToString :: "rat \<Rightarrow> string" where
  "positiveToString q =
     (let (s0, m) = decimalOf 1100 q 0;
          (s, z) = stripZeros s0 0;
          ds = natDigits s
      in formatDigits ds (int (length ds) + z - m))"

definition numberToString :: "rat \<Rightarrow> string" where
  "numberToString q =
     (if q = 0 then ''0''
      else if q < 0 then ''-'' @ positiveToString (- q)
      else positiveToString q)"

section \<open>Risk scorer\<close>

definition HIGH_FEVER_THRESHOLD :: rat where
  "HIGH_FEVER_THRESHOLD = 101"

text \<open>
  \<open>parseNumber\<close>: null for an empty or blank string and for a string whose \<open>Number\<close> is
  not finite. The parameter is typed \<open>string\<close>, so the guard against null and undefined
  has no case here.
\<close>

definition parseNumber :: "string \<Rightarrow> rat option" where
  "parseNumber v =
     (let trimmed = trim v in
      if trimmed = '''' then None
      else case StringToNumber trimmed of Finite q \<Rightarrow> Some q | _ \<Rightarrow> None)"

definition getBloodPressureScore :: "string \<Rightarrow> string \<Rightarrow> nat" where
  "getBloodPressureScore systolicValue diastolicValue =
     (case (parseNumber systolicValue, parseNumber diastolicValue) of
        (Some systolic, Some diastolic) \<Rightarrow>
          if systolic \<ge> 140 \<or> diastolic \<ge> 90 then 4
          else if (systolic \<ge> 130 \<and> systolic \<le> 139) \<or> (diastolic \<ge> 80 \<and> diastolic \<le> 89) then 3
          else if systolic \<ge> 120 \<and> systolic \<le> 129 \<and> diastolic < 80 then 2
          else if systolic < 120 \<and> diastolic < 80 then 1
          else 0
      | _ \<Rightarrow> 0)"

definition getTemperatureScore :: "string \<Rightarrow> nat" where
  "getTemperatureScore temperatureValue =
     (case parseNumber temperatureValue of
        None \<Rightarrow> 0
      | Some temperature \<Rightarrow>
          if temperature \<ge> HIGH_FEVER_THRESHOLD then 2
          else if temperature \<ge> 99.6 \<and> temperature \<le> 100.9 then 1
          else if temperature \<le> 99.5 then 0
          else 0)"

definition getAgeScore :: "string \<Rightarrow> nat" where
  "getAgeScore ageValue =
     (case parseNumber ageValue of
        None \<Rightarrow> 0
      | Some age \<Rightarrow>
          if age < 0 then 0
          else if age > 65 then 2
          else if age \<ge> 40 then 1
          else if age < 40 then 1
          else 0)"

section \<open>Classifier: normalising one raw record\<close>

text \<open>
  A raw record as the page types it: five optional fields of type \<open>unknown\<close>. An absent
  field reads as \<open>JUndefined\<close>. The field \<open>id\<close> is written \<open>id'\<close>.
\<close>

record Patient =
  patient_id :: jsval
  id' :: jsval
  blood_pressure :: jsval
  temperature :: jsval
  age :: jsval

record BloodPressureReading =
  systolic :: "string option"
  diastolic :: "string option"
  valid :: bool

text \<open>The object \<open>normalizePatient\<close> returns; \<open>n_id\<close> and \<open>n_temperature\<close> are its \<open>id\<close> and \<open>temperature\<close>.\<close>

record NormalizedPatient =
  n_id :: string
  bpScore :: nat
  tempScore :: nat
  ageScore :: nat
  total :: nat
  n_temperature :: "rat option"
  hasInvalid :: bool

text \<open>\<open>String.prototype.split\<close> with a one-character separator.\<close>

fun split :: "char \<Rightarrow> string \<Rightarrow> string list" where
  "split sep [] = [[]]"
| "split sep (c # cs) =
     (if c = sep then [] # split sep cs
      else case split sep cs of [] \<Rightarrow> [[c]] | x # xs \<Rightarrow> (c # x) # xs)"

definition invalidReading :: BloodPressureReading where
  "invalidReading = \<lparr>systolic = None, diastolic = None, valid = False\<rparr>"

definition parseBloodPressureReading :: "jsval \<Rightarrow> BloodPressureReading" where
  "parseBloodPressureReading raw =
     (case raw of
        JString str \<Rightarrow>
          (let trimmed = trim str in
           if CHR ''/'' \<notin> set trimmed then invalidReading
           else case split CHR ''/'' trimmed of
                  systolicRaw # diastolicRaw # _ \<Rightarrow>
                    if systolicRaw = [] \<or> diastolicRaw = [] then invalidReading
                    else
                      (case (parseNumber systolicRaw, parseNumber diastolicRaw) of
                         (Some s, Some d) \<Rightarrow>
                           \<lparr>systolic = Some (numberToString s),
                            diastolic = Some (numberToString d), valid = True\<rparr>
                       | _ \<Rightarrow> invalidReading)
                | _ \<Rightarrow> invalidReading)
      | _ \<Rightarrow> invalidReading)"

definition parseTemperatureValue :: "jsval \<Rightarrow> rat option" where
  "parseTemperatureValue raw =
     (case raw of
        JNumber n \<Rightarrow> (case n of Finite q \<Rightarrow> Some q | _ \<Rightarrow> None)
      | JString str \<Rightarrow> parseNumber str
      | _ \<Rightarrow> None)"

definition parseAgeValue :: "jsval \<Rightarrow> rat option" where
  "parseAgeValue raw =
     (case raw of
        JNumber n \<Rightarrow> (case n of Finite q \<Rightarrow> if q \<ge> 0 then Some q else None | _ \<Rightarrow> None)
      | JString str \<Rightarrow>
          (case parseNumber str of
             None \<Rightarrow> None
           | Some parsed \<Rightarrow> if parsed < 0 then None else Some parsed)
      | _ \<Rightarrow> None)"

text \<open>The id: \<open>patient_id\<close> when it is a string, else \<open>id\<close> when it is a string, else null.\<close>

definition resolveId :: "Patient \<Rightarrow> string option" where
  "resolveId patient =
     (case patient_id patient of
        JString str \<Rightarrow> Some str
      | _ \<Rightarrow> (case id' patient of JString str \<Rightarrow> Some str | _ \<Rightarrow> None))"

definition normalizePatient :: "Patient \<Rightarrow> NormalizedPatient option" where
  "normalizePatient patient =
     (case resolveId patient of
        None \<Rightarrow> None
      | Some ident \<Rightarrow>
          if ident = [] then None
          else
            (let bp = parseBloodPressureReading (blood_pressure patient);
                 temp = parseTemperatureValue (temperature patient);
                 years = parseAgeValue (age patient);
                 bpS = (if valid bp
                        then getBloodPressureScore
                               (case systolic bp of None \<Rightarrow> [] | Some str \<Rightarrow> str)
                               (case diastolic bp of None \<Rightarrow> [] | Some str \<Rightarrow> str)
                        else 0);
                 tempS = getTemperatureScore (case temp of None \<Rightarrow> [] | Some t \<Rightarrow> numberToString t);
                 ageS = getAgeScore (case years of None \<Rightarrow> [] | Some a \<Rightarrow> numberToString a)
             in Some \<lparr>n_id = ident, bpScore = bpS, tempScore = tempS, ageScore = ageS,
                       total = bpS + tempS + ageS, n_temperature = temp,
                       hasInvalid = (\<not> valid bp \<or> temp = None \<or> years = None)\<rparr>))"

section \<open>Classifier: the batch loop of \<open>fetchPatients\<close>\<close>

text \<open>
  The four locals the \<open>forEach\<close> callback updates. \<open>seen\<close> is the JavaScript \<open>Set\<close> in
  insertion order; the callback adds an id only after \<open>seen.has\<close> answered no.
\<close>

record AlertState =
  highRisk :: "string list"
  fever :: "string list"
  dataQuality :: "string list"
  seen :: "string list"

text \<open>The object passed to \<open>setAlerts\<close>.\<close>

record AlertLists =
  alerts_highRisk :: "string list"
  alerts_fever :: "string list"
  alerts_dataQuality :: "string list"
  totalPatients :: nat

definition forEachEntry :: "AlertState \<Rightarrow> Patient \<Rightarrow> AlertState" where
  "forEachEntry st entry =
     (case normalizePatient entry of
        None \<Rightarrow> st
      | Some normalized \<Rightarrow>
          if n_id normalized \<in> set (seen st) then st
          else
            \<lparr>highRisk = highRisk st @ (if total normalized \<ge> 4 then [n_id normalized] else []),
             fever = fever st @
               (case n_temperature normalized of
                  None \<Rightarrow> []
                | Some t \<Rightarrow> if t \<ge> 99.6 then [n_id normalized] else []),
             dataQuality = dataQuality st @ (if hasInvalid normalized then [n_id normalized] else []),
             seen = seen st @ [n_id normalized]\<rparr>)"

definition emptyAlertState :: AlertState where
  "emptyAlertState = \<lparr>highRisk = [], fever = [], dataQuality = [], seen = []\<rparr>"

text \<open>The loop over a batch whose entries are all read as \<open>Patient\<close> records, and its alerts.\<close>

definition classifyRecords :: "Patient list \<Rightarrow> AlertLists" where
  "classifyRecords records =
     (let st = foldl forEachEntry emptyAlertState records
      in \<lparr>alerts_highRisk = highRisk st, alerts_fever = fever st,
          alerts_dataQuality = dataQuality st, totalPatients = length (seen st)\<rparr>)"

text \<open>
  An element of the \<open>data\<close> array, which is typed \<open>unknown[]\<close>: null, undefined, a value
  on which the five properties all read undefined (a boolean, a number, a string, an
  array), or an object with its five fields.
\<close>

datatype RawEntry = RawNull | RawUndefined | RawOther | RawObject Patient

text \<open>
  \<open>entry as Patient\<close> followed by the property reads of \<open>normalizePatient\<close>: reading
  \<open>patient_id\<close> of null or undefined throws a TypeError (\<open>None\<close>).
\<close>

definition entryFields :: "RawEntry \<Rightarrow> Patient option" where
  "entryFields entry =
     (case entry of
        RawNull \<Rightarrow> None
      | RawUndefined \<Rightarrow> None
      | RawOther \<Rightarrow>
          Some \<lparr>patient_id = JUndefined, id' = JUndefined, blood_pressure = JUndefined,
                temperature = JUndefined, age = JUndefined\<rparr>
      | RawObject patient \<Rightarrow> Some patient)"

text \<open>
  What \<open>fetchPatients\<close> hands to \<open>setPatientError\<close>: the message of an error, or the message
  of the TypeError thrown on a null or undefined entry (its text is the engine's).
\<close>

datatype PatientError = ErrorMessage string | EntryTypeError

text \<open>\<open>records.forEach\<close>: the callback on each entry in turn; a throw ends the loop.\<close>

fun forEachRecords :: "AlertState \<Rightarrow> RawEntry list \<Rightarrow> PatientError + AlertState" where
  "forEachRecords st [] = Inr st"
| "forEachRecords st (entry # entries) =
     (case entryFields entry of
        None \<Rightarrow> Inl EntryTypeError
      | Some patient \<Rightarrow> forEachRecords (forEachEntry st patient) entries)"




section \<open>Paginated fetch client\<close>

definition MAX_ATTEMPTS :: nat where
  "MAX_ATTEMPTS = 5"

definition BASE_DELAY_MS :: int where
  "BASE_DELAY_MS = 300"

definition isRetriableStatus :: "int \<Rightarrow> bool" where
  "isRetriableStatus status = (status = 429 \<or> status = 500 \<or> status = 503)"

subsection \<open>The remote service and the effects of the client\<close>

text \<open>The two URLs the client builds: the patients list with its \<open>page\<close> and \<open>limit\<close>, and the submission.\<close>

datatype url = PatientsUrl int int | SubmitAssessmentUrl

text \<open>
  The pagination object of a page body. \<open>page\<close> and \<open>totalPages\<close> are read with \<open>??\<close>, which
  takes null and undefined alike (\<open>None\<close>); \<open>hasNext\<close> is compared with undefined only, so it is
  kept as the value received (\<open>JUndefined\<close> when absent).
\<close>

record Pagination =
  pg_page :: "int option"
  pg_totalPages :: "int option"
  pg_hasNext :: jsval

record 'a PatientsResponse =
  data :: "'a list option"
  pagination :: "Pagination option"

text \<open>
  A response: its status, its body as text (\<open>None\<close> when \<open>response.text()\<close> rejects) and as
  JSON (\<open>None\<close> when \<open>response.json()\<close> rejects, or yields null so that reading
  \<open>payload.data\<close> throws). Page numbers and page counts, when given, are integers.
\<close>

record 'a Response =
  status :: int
  text_body :: "string option"
  json_body :: "'a PatientsResponse option"

definition ok :: "('a, 'b) Response_scheme \<Rightarrow> bool" where
  "ok response = (200 \<le> status response \<and> status response \<le> 299)"

datatype 'a FetchOutcome = Resolved "'a Response" | Rejected string

text \<open>
  The errors the client throws: the \<open>Request failed with status ...\<close> error with the
  status and the body text, a rejected \<open>fetch\<close> with its message, a rejected
  \<open>response.json()\<close>, the missing API key, and the error after the retry loop.
\<close>

datatype error =
    StatusError int string
  | TransportError string
  | JsonRejected
  | MissingApiKey
  | ExceededMaxRetries

text \<open>
  The remote service is a state machine: a request (URL and API key) in a state yields an
  outcome and the next state. The client's effects are recorded in order: every call of
  \<open>fetch\<close> and every \<open>wait\<close> with its milliseconds.
\<close>

type_synonym ('a, 'w) network = "'w \<Rightarrow> url \<Rightarrow> string \<Rightarrow> 'a FetchOutcome \<times> 'w"

datatype event = Fetch url | Wait int

record 'w io =
  world :: 'w
  trace :: "event list"

definition fetch :: "('a, 'w) network \<Rightarrow> url \<Rightarrow> string \<Rightarrow> 'w io \<Rightarrow> 'a FetchOutcome \<times> 'w io" where
  "fetch net u apiKey s =
     (case net (world s) u apiKey of
        (outcome, w) \<Rightarrow> (outcome, \<lparr>world = w, trace = trace s @ [Fetch u]\<rparr>))"

definition wait :: "int \<Rightarrow> 'w io \<Rightarrow> 'w io" where
  "wait ms s = \<lparr>world = world s, trace = trace s @ [Wait ms]\<rparr>"

subsection \<open>\<open>fetchWithRetry\<close>\<close>

text \<open>
  The \<open>while\<close> loop with its \<open>try\<close>/\<open>catch\<close>. The error thrown for a response that is
  not retried is thrown inside the \<open>try\<close> block, so the \<open>catch\<close> clause of the same
  statement receives it, as it receives a rejected \<open>fetch\<close>.
\<close>

function fetchWithRetry_loop ::
  "('a, 'w) network \<Rightarrow> url \<Rightarrow> string \<Rightarrow> nat \<Rightarrow> 'w io \<Rightarrow> (error + 'a Response) \<times> 'w io" where
  "fetchWithRetry_loop net u apiKey attempt0 s =
     (if attempt0 < MAX_ATTEMPTS then
        (let attempt = attempt0 + 1 in
         case fetch net u apiKey s of
           (Resolved response, s1) \<Rightarrow>
             if ok response then (Inr response, s1)
             else if isRetriableStatus (status response) \<and> attempt < MAX_ATTEMPTS then
               fetchWithRetry_loop net u apiKey attempt
                 (wait (min (BASE_DELAY_MS * 2 ^ (attempt - 1)) 4000) s1)
             else if attempt \<ge> MAX_ATTEMPTS then
               (Inl (StatusError (status response)
                      (case text_body response of None \<Rightarrow> [] | Some body \<Rightarrow> body)), s1)
             else
               fetchWithRetry_loop net u apiKey attempt
                 (wait (min (BASE_DELAY_MS * 2 ^ (attempt - 1)) 4000) s1)
         | (Rejected message, s1) \<Rightarrow>
             if attempt \<ge> MAX_ATTEMPTS then (Inl (TransportError message), s1)
             else
               fetchWithRetry_loop net u apiKey attempt
                 (wait (min (BASE_DELAY_MS * 2 ^ (attempt - 1)) 4000) s1))
      else (Inl ExceededMaxRetries, s))"
  by pat_completeness auto
termination
  by (relation "measure (\<lambda>(net, u, apiKey, attempt0, s). MAX_ATTEMPTS - attempt0)") auto

declare fetchWithRetry_loop.simps [simp del]

definition fetchWithRetry ::
  "('a, 'w) network \<Rightarrow> url \<Rightarrow> string \<Rightarrow> 'w io \<Rightarrow> (error + 'a Response) \<times> 'w io" where
  "fetchWithRetry net u apiKey s = fetchWithRetry_loop net u apiKey 0 s"

subsection \<open>\<open>fetchAllPatients\<close>\<close>

record Env =
  DEMOMED_API_KEY :: "string option"
  NEXT_PUBLIC_DEMOMED_API_KEY :: "string option"

definition getApiKey :: "Env \<Rightarrow> error + string" where
  "getApiKey env =
     (case (case DEMOMED_API_KEY env of Some k \<Rightarrow> Some k | None \<Rightarrow> NEXT_PUBLIC_DEMOMED_API_KEY env) of
        None \<Rightarrow> Inl MissingApiKey
      | Some k \<Rightarrow> if k = [] then Inl MissingApiKey else Inr k)"

definition buildPatientsUrl :: "int \<Rightarrow> int \<Rightarrow> url" where
  "buildPatientsUrl pageNo limit = PatientsUrl pageNo limit"

text \<open>The truth value JavaScript gives a value in a condition.\<close>

definition truthy :: "jsval \<Rightarrow> bool" where
  "truthy v =
     (case v of
        JUndefined \<Rightarrow> False
      | JNull \<Rightarrow> False
      | JBool b \<Rightarrow> b
      | JNumber n \<Rightarrow> (case n of Finite q \<Rightarrow> q \<noteq> 0 | NaN \<Rightarrow> False | _ \<Rightarrow> True)
      | JString str \<Rightarrow> str \<noteq> []
      | JObject \<Rightarrow> True)"

text \<open>The locals of the paging loop. \<open>hasNext\<close> holds whatever the last page assigned to it.\<close>

record 'a PagingState =
  patients :: "'a list"
  page :: int
  pagesFetched :: int
  hasNext :: jsval
  totalPages :: "int option"

text \<open>The loop body after a successful page, from \<open>pageData\<close> to \<open>pagesFetched += 1\<close>.\<close>

definition afterPage :: "int \<Rightarrow> 'a PagingState \<Rightarrow> 'a PatientsResponse \<Rightarrow> 'a PagingState" where
  "afterPage maxPages st payload =
     (let pageData = (case data payload of None \<Rightarrow> [] | Some d \<Rightarrow> d);
          totalPagesNow =
            (case (case pagination payload of None \<Rightarrow> None | Some pg \<Rightarrow> pg_totalPages pg) of
               Some t \<Rightarrow> Some t
             | None \<Rightarrow> totalPages st);
          pageNumber =
            (case (case pagination payload of None \<Rightarrow> None | Some pg \<Rightarrow> pg_page pg) of
               Some n \<Rightarrow> n
             | None \<Rightarrow> page st);
          hasNextFlag = (case pagination payload of None \<Rightarrow> JUndefined | Some pg \<Rightarrow> pg_hasNext pg);
          inferredHasNext =
            (if hasNextFlag \<noteq> JUndefined then hasNextFlag
             else
               JBool (case totalPagesNow of
                        Some t \<Rightarrow> pageNumber < t
                      | None \<Rightarrow> pageData \<noteq> [] \<and> page st < maxPages))
      in \<lparr>patients = patients st @ pageData,
          page = page st + 1,
          pagesFetched = pagesFetched st + 1,
          hasNext = inferredHasNext,
          totalPages = totalPagesNow\<rparr>)"

function fetchAllPatients_loop ::
  "('a, 'w) network \<Rightarrow> string \<Rightarrow> int \<Rightarrow> int \<Rightarrow> 'a PagingState \<Rightarrow> 'w io
     \<Rightarrow> (error + 'a PagingState) \<times> 'w io" where
  "fetchAllPatients_loop net apiKey limit maxPages st s =
     (if truthy (hasNext st) \<and> page st \<le> maxPages then
        (case fetchWithRetry net (buildPatientsUrl (page st) limit) apiKey s of
           (Inl err, s1) \<Rightarrow> (Inl err, s1)
         | (Inr response, s1) \<Rightarrow>
             (case json_body response of
                None \<Rightarrow> (Inl JsonRejected, s1)
              | Some payload \<Rightarrow>
                  fetchAllPatients_loop net apiKey limit maxPages (afterPage maxPages st payload) s1))
      else (Inr st, s))"
  by pat_completeness auto
termination
  by (relation "measure (\<lambda>(net, apiKey, limit, maxPages, st, s). nat (maxPages + 1 - page st))")
     (auto simp: afterPage_def Let_def)

declare fetchAllPatients_loop.simps [simp del]

record 'a FetchResult =
  res_patients :: "'a list"
  res_pagesFetched :: int
  res_totalPages :: int
  res_limit :: int

record FetchPatientsOptions =
  opt_limit :: "int option"
  opt_maxPages :: "int option"

definition initialPaging :: "'a PagingState" where
  "initialPaging = \<lparr>patients = [], page = 1, pagesFetched = 0, hasNext = JBool True, totalPages = None\<rparr>"

definition fetchAllPatients ::
  "('a, 'w) network \<Rightarrow> Env \<Rightarrow> FetchPatientsOptions \<Rightarrow> 'w io \<Rightarrow> (error + 'a FetchResult) \<times> 'w io" where
  "fetchAllPatients net env options s =
     (let limit = (case opt_limit options of None \<Rightarrow> 5 | Some l \<Rightarrow> l);
          maxPages = (case opt_maxPages options of None \<Rightarrow> 10 | Some m \<Rightarrow> m)
      in case getApiKey env of
           Inl err \<Rightarrow> (Inl err, s)
         | Inr apiKey \<Rightarrow>
             (case fetchAllPatients_loop net apiKey limit maxPages initialPaging s of
                (Inl err, s1) \<Rightarrow> (Inl err, s1)
              | (Inr st, s1) \<Rightarrow>
                  (Inr \<lparr>res_patients = patients st,
                        res_pagesFetched = pagesFetched st,
                        res_totalPages = (case totalPages st of None \<Rightarrow> pagesFetched st | Some t \<Rightarrow> t),
                        res_limit = limit\<rparr>, s1)))"

subsection \<open>The specification's words, for comparison with the client\<close>

text \<open>The delay the specification gives before attempt \<open>n + 1\<close>: \<open>min(300ms * 2^(n-1), 4000ms)\<close>.\<close>

definition backoffDelay :: "nat \<Rightarrow> int" where
  "backoffDelay n = min (300 * 2 ^ (n - 1)) 4000"

text \<open>What a call that made \<open>k\<close> attempts did, in order: attempt, delay, attempt, ..., attempt.\<close>

definition attemptsWithBackoff :: "url \<Rightarrow> nat \<Rightarrow> event list" where
  "attemptsWithBackoff u k = concat (map (\<lambda>n. [Fetch u, Wait (backoffDelay n)]) [1..<k]) @ [Fetch u]"

definition totalDelay :: "event list \<Rightarrow> int" where
  "totalDelay evs = sum_list (map (\<lambda>e. case e of Wait ms \<Rightarrow> ms | Fetch _ \<Rightarrow> 0) evs)"

definition fetchCount :: "event list \<Rightarrow> nat" where
  "fetchCount evs = length (filter (\<lambda>e. case e of Fetch _ \<Rightarrow> True | Wait _ \<Rightarrow> False) evs)"

text \<open>The explicit \<open>hasNext\<close> boolean of a page body, if it has one.\<close>

definition explicitHasNext :: "'a PatientsResponse \<Rightarrow> bool option" where
  "explicitHasNext payload =
     (case pagination payload of
        None \<Rightarrow> None
      | Some pg \<Rightarrow> (case pg_hasNext pg of JBool flag \<Rightarrow> Some flag | _ \<Rightarrow> None))"

definition reportedTotalPages :: "'a PatientsResponse \<Rightarrow> int option" where
  "reportedTotalPages payload = (case pagination payload of None \<Rightarrow> None | Some pg \<Rightarrow> pg_totalPages pg)"

definition reportedPage :: "'a PatientsResponse \<Rightarrow> int option" where
  "reportedPage payload = (case pagination payload of None \<Rightarrow> None | Some pg \<Rightarrow> pg_page pg)"

definition nonEmptyPage :: "'a PatientsResponse \<Rightarrow> bool" where
  "nonEmptyPage payload = (case data payload of None \<Rightarrow> False | Some d \<Rightarrow> d \<noteq> [])"

text \<open>
  The specification's \<open>hasNext\<close> rule as it is worded: the explicit flag of the response,
  else the page number against the \<open>totalPages\<close> this response reports, else the fallback.
\<close>

definition statedHasNext :: "int \<Rightarrow> int \<Rightarrow> 'a PatientsResponse \<Rightarrow> bool" where
  "statedHasNext maxPages pageNo payload =
     (case explicitHasNext payload of
        Some flag \<Rightarrow> flag
      | None \<Rightarrow>
          (case reportedTotalPages payload of
             Some t \<Rightarrow> (case reportedPage payload of None \<Rightarrow> pageNo | Some n \<Rightarrow> n) < t
           | None \<Rightarrow> nonEmptyPage payload \<and> pageNo < maxPages))"

text \<open>
  The rule the loop follows: as above, with the \<open>totalPages\<close> most recently reported by
  this or an earlier response of the run (\<open>known\<close>) in the second place.
\<close>

definition latestTotalPages :: "int option \<Rightarrow> 'a PatientsResponse \<Rightarrow> int option" where
  "latestTotalPages known payload =
     (case reportedTotalPages payload of Some t \<Rightarrow> Some t | None \<Rightarrow> known)"

definition carriedHasNext :: "int \<Rightarrow> int \<Rightarrow> int option \<Rightarrow> 'a PatientsResponse \<Rightarrow> bool" where
  "carriedHasNext maxPages pageNo known payload =
     (case explicitHasNext payload of
        Some flag \<Rightarrow> flag
      | None \<Rightarrow>
          (case latestTotalPages known payload of
             Some t \<Rightarrow> (case reportedPage payload of None \<Rightarrow> pageNo | Some n \<Rightarrow> n) < t
           | None \<Rightarrow> nonEmptyPage payload \<and> pageNo < maxPages))"

text \<open>The state in which that rule has the loop go on after the page \<open>payload\<close>.\<close>

definition carriedPaging :: "int \<Rightarrow> 'a PagingState \<Rightarrow> 'a PatientsResponse \<Rightarrow> 'a PagingState" where
  "carriedPaging maxPages st payload =
     \<lparr>patients = patients st @ (case data payload of None \<Rightarrow> [] | Some d \<Rightarrow> d),
      page = page st + 1,
      pagesFetched = pagesFetched st + 1,
      hasNext = JBool (carriedHasNext maxPages (page st) (totalPages st) payload),
      totalPages = latestTotalPages (totalPages st) payload\<rparr>"

text \<open>The \<open>hasNext\<close> field of a page body is as its type declares: a boolean, or absent.\<close>

definition hasNextAsDeclared :: "'a PatientsResponse \<Rightarrow> bool" where
  "hasNextAsDeclared payload =
     (case pagination payload of
        None \<Rightarrow> True
      | Some pg \<Rightarrow> (case pg_hasNext pg of JUndefined \<Rightarrow> True | JBool _ \<Rightarrow> True | _ \<Rightarrow> False))"

section \<open>Reference notions for the classifier and test doubles for the remote service\<close>


text \<open>The records that have a usable id, normalised, in the order received.\<close>

definition normalizedRecords :: "Patient list \<Rightarrow> NormalizedPatient list" where
  "normalizedRecords records = List.map_filter normalizePatient records"

text \<open>The first normalised record that carries a given id, if any.\<close>

definition firstWithId :: "Patient list \<Rightarrow> string \<Rightarrow> NormalizedPatient option" where
  "firstWithId records = map_of (map (\<lambda>n. (n_id n, n)) (normalizedRecords records))"

text \<open>
  A scripted service: its state is the list of outcomes still to come, one per request;
  once the script is over every request is rejected.
\<close>

definition scriptedNetwork :: "('a, 'a FetchOutcome list) network" where
  "scriptedNetwork w u apiKey = (case w of [] \<Rightarrow> (Rejected ''script over'', []) | x # xs \<Rightarrow> (x, xs))"

definition startOf :: "'w \<Rightarrow> 'w io" where
  "startOf w = \<lparr>world = w, trace = []\<rparr>"

definition statusOnly :: "int \<Rightarrow> string \<Rightarrow> 'a Response" where
  "statusOnly code body = \<lparr>status = code, text_body = Some body, json_body = None\<rparr>"

definition jsonPage :: "'a list \<Rightarrow> Pagination option \<Rightarrow> 'a Response" where
  "jsonPage records pg =
     \<lparr>status = 200, text_body = None, json_body = Some \<lparr>data = Some records, pagination = pg\<rparr>\<rparr>"

text \<open>A service that answers every request with one record and \<open>hasNext = true\<close>; its state counts the requests.\<close>

definition alwaysNextNetwork :: "(nat, nat) network" where
  "alwaysNextNetwork w u apiKey =
     (Resolved (jsonPage [w] (Some \<lparr>pg_page = None, pg_totalPages = None, pg_hasNext = JBool True\<rparr>)), w + 1)"

definition configuredEnv :: Env where
  "configuredEnv = \<lparr>DEMOMED_API_KEY = Some ''secret'', NEXT_PUBLIC_DEMOMED_API_KEY = None\<rparr>"

text \<open>Sample records: an id under \<open>patient_id\<close>, a blood-pressure string, a temperature and an age.\<close>

definition samplePatient :: "string \<Rightarrow> string \<Rightarrow> rat \<Rightarrow> rat \<Rightarrow> Patient" where
  "samplePatient ident bp temp years =
     \<lparr>patient_id = JString ident, id' = JUndefined, blood_pressure = JString bp,
      temperature = JNumber (Finite temp), age = JNumber (Finite years)\<rparr>"


text \<open>
  Three page bodies: one that reports \<open>totalPages = 3\<close> and no \<open>hasNext\<close>, one with no
  pagination object and no records, and one that says \<open>hasNext = false\<close>.
\<close>

definition reportingPayload :: "nat PatientsResponse" where
  "reportingPayload =
     \<lparr>data = Some [1], pagination = Some \<lparr>pg_page = None, pg_totalPages = Some 3, pg_hasNext = JUndefined\<rparr>\<rparr>"

definition barePayload :: "nat PatientsResponse" where
  "barePayload = \<lparr>data = Some [], pagination = None\<rparr>"

definition lastPayload :: "nat PatientsResponse" where
  "lastPayload =
     \<lparr>data = Some [], pagination = Some \<lparr>pg_page = None, pg_totalPages = None, pg_hasNext = JBool False\<rparr>\<rparr>"

definition okJson :: "'a PatientsResponse \<Rightarrow> 'a Response" where
  "okJson payload = \<lparr>status = 200, text_body = None, json_body = Some payload\<rparr>"

text \<open>A page body that reports \<open>totalPages = 3\<close> and whose \<open>hasNext\<close> is null.\<close>

definition nullFlagPayload :: "nat PatientsResponse" where
  "nullFlagPayload =
     \<lparr>data = Some [1], pagination = Some \<lparr>pg_page = None, pg_totalPages = Some 3, pg_hasNext = JNull\<rparr>\<rparr>"

section \<open>Properties of the risk scorer\<close>

lemma getAgeScore_cases:
  "getAgeScore s =
     (case parseNumber s of None \<Rightarrow> 0 | Some a \<Rightarrow> if a < 0 then 0 else if a > 65 then 2 else 1)"
  by (auto simp: getAgeScore_def split: option.splits)

text \<open>
  C8. The age score has three bands: an age above 65 scores 2, any other non-negative age
  scores 1, a negative or unparsable age scores 0; so the inputs 70, 50, 10 and -5 score
  2, 1, 1 and 0.
\<close>

theorem getAgeScore_bands:
  "(parseNumber s = None \<longrightarrow> getAgeScore s = 0) \<and>
   (parseNumber s = Some a \<longrightarrow>
      getAgeScore s = (if a < 0 then 0 else if a > 65 then 2 else 1)) \<and>
   getAgeScore ''70'' = 2 \<and> getAgeScore ''50'' = 1 \<and> getAgeScore ''10'' = 1 \<and>
   getAgeScore ''-5'' = 0"
proof -
  have general: "(parseNumber s = None \<longrightarrow> getAgeScore s = 0) \<and>
   (parseNumber s = Some a \<longrightarrow>
      getAgeScore s = (if a < 0 then 0 else if a > 65 then 2 else 1))"
    by (simp add: getAgeScore_cases)
  have "getAgeScore ''70'' = 2" by code_simp
  moreover have "getAgeScore ''50'' = 1" by code_simp
  moreover have "getAgeScore ''10'' = 1" by code_simp
  moreover have "getAgeScore ''-5'' = 0" by code_simp
  ultimately show ?thesis using general by blast
qed

theorem getAgeScore_bands_witness:
  "parseNumber ''65'' = Some 65 \<and> getAgeScore ''65'' = 1 \<and>
   parseNumber ''65.5'' = Some 65.5 \<and> getAgeScore ''65.5'' = 2 \<and>
   parseNumber ''abc'' = None \<and> getAgeScore ''abc'' = 0"
proof -
  have p1: "parseNumber ''65'' = Some 65" by code_simp
  have p2: "parseNumber ''65.5'' = Some 65.5" by code_simp
  have p3: "parseNumber ''abc'' = None" by code_simp
  have "getAgeScore ''65'' = 1"
    using getAgeScore_bands [of "''65''" 65] p1 by simp
  moreover have "getAgeScore ''65.5'' = 2"
    using getAgeScore_bands [of "''65.5''" "65.5"] p2 by simp
  moreover have "getAgeScore ''abc'' = 0"
    using getAgeScore_bands [of "''abc''" 0] p3 by simp
  ultimately show ?thesis using p1 p2 p3 by simp
qed

text \<open>
  C10. A temperature strictly between 100.9 and 101 scores 0, although every temperature
  from 99.6 to 100.9 scores 1 and every temperature from 101 on scores 2: the gap between
  the two bands falls through to 0.
\<close>

theorem getTemperatureScore_gap:
  assumes "parseNumber s = Some t"
  shows "(100.9 < t \<and> t < 101 \<longrightarrow> getTemperatureScore s = 0) \<and>
         (99.6 \<le> t \<and> t \<le> 100.9 \<longrightarrow> getTemperatureScore s = 1) \<and>
         (101 \<le> t \<longrightarrow> getTemperatureScore s = 2)"
  using assms by (auto simp: getTemperatureScore_def HIGH_FEVER_THRESHOLD_def)

theorem getTemperatureScore_gap_witness:
  "parseNumber ''100.95'' = Some 100.95 \<and> getTemperatureScore ''100.95'' = 0 \<and>
   parseNumber ''100.9'' = Some 100.9 \<and> getTemperatureScore ''100.9'' = 1 \<and>
   parseNumber ''101'' = Some 101 \<and> getTemperatureScore ''101'' = 2"
proof -
  have p1: "parseNumber ''100.95'' = Some 100.95" by code_simp
  have p2: "parseNumber ''100.9'' = Some 100.9" by code_simp
  have p3: "parseNumber ''101'' = Some 101" by code_simp
  show ?thesis
    using getTemperatureScore_gap [OF p1] getTemperatureScore_gap [OF p2]
      getTemperatureScore_gap [OF p3] p1 p2 p3
    by simp
qed

lemma getBloodPressureScore_range: "getBloodPressureScore s d \<le> 4"
  by (auto simp: getBloodPressureScore_def split: option.splits)

text \<open>
  On whole-number readings the blood-pressure score is never 0 and does not decrease when
  either reading increases.
\<close>

lemma getBloodPressureScore_mono_whole:
  assumes "parseNumber s = Some (of_int a)" "parseNumber d = Some (of_int b)"
    and "parseNumber s' = Some (of_int a')" "parseNumber d' = Some (of_int b')"
    and "a \<le> a'" "b \<le> b'"
  shows "1 \<le> getBloodPressureScore s d \<and> getBloodPressureScore s d \<le> getBloodPressureScore s' d'"
proof -
  have score: "getBloodPressureScore x y =
      (if 140 \<le> i \<or> 90 \<le> j then 4 else if 130 \<le> i \<or> 80 \<le> j then 3
       else if 120 \<le> i then 2 else 1)"
    if "parseNumber x = Some (of_int i)" "parseNumber y = Some (of_int j)" for x y and i j :: int
  proof -
    have [simp]: "(of_int i :: rat) < 120 \<longleftrightarrow> i < 120" "(of_int j :: rat) < 80 \<longleftrightarrow> j < 80"
      "(140 :: rat) \<le> of_int i \<longleftrightarrow> 140 \<le> i" "(90 :: rat) \<le> of_int j \<longleftrightarrow> 90 \<le> j"
      "(130 :: rat) \<le> of_int i \<longleftrightarrow> 130 \<le> i" "(of_int i :: rat) \<le> 139 \<longleftrightarrow> i \<le> 139"
      "(80 :: rat) \<le> of_int j \<longleftrightarrow> 80 \<le> j" "(of_int j :: rat) \<le> 89 \<longleftrightarrow> j \<le> 89"
      "(120 :: rat) \<le> of_int i \<longleftrightarrow> 120 \<le> i" "(of_int i :: rat) \<le> 129 \<longleftrightarrow> i \<le> 129"
      by linarith+
    show ?thesis using that by (auto simp: getBloodPressureScore_def)
  qed
  show ?thesis
    using assms(5,6) by (simp add: score [OF assms(1,2)] score [OF assms(3,4)])
qed

text \<open>
  C3. The specification has the blood-pressure score non-decreasing in each reading. It is at
  most 4 (\<open>getBloodPressureScore_range\<close>), but a systolic reading of 139.5 with a diastolic
  of 70 scores 0 where 139 with the same diastolic scores 3: readings between two
  whole-number bands fall through every branch.
\<close>

theorem getBloodPressureScore_drops:
  "getBloodPressureScore ''139'' ''70'' = 3 \<and> getBloodPressureScore ''139.5'' ''70'' = 0"
proof -
  have "getBloodPressureScore ''139'' ''70'' = 3" by code_simp
  moreover have "getBloodPressureScore ''139.5'' ''70'' = 0" by code_simp
  ultimately show ?thesis by simp
qed

section \<open>Properties of the classifier\<close>

lemma normalizedRecords_snoc:
  "normalizedRecords (xs @ [x]) =
     normalizedRecords xs @ (case normalizePatient x of None \<Rightarrow> [] | Some n \<Rightarrow> [n])"
  by (induction xs) (auto simp: normalizedRecords_def List.map_filter_simps split: option.splits)


lemma firstWithId_snoc:
  "firstWithId (xs @ [x]) =
     (case normalizePatient x of
        None \<Rightarrow> firstWithId xs
      | Some n \<Rightarrow>
          if n_id n \<in> dom (firstWithId xs) then firstWithId xs
          else (firstWithId xs)(n_id n \<mapsto> n))"
proof (cases "normalizePatient x")
  case None
  then show ?thesis by (simp add: firstWithId_def normalizedRecords_snoc)
next
  case (Some n)
  have "firstWithId (xs @ [x]) = [n_id n \<mapsto> n] ++ firstWithId xs"
    using Some by (simp add: firstWithId_def normalizedRecords_snoc)
  moreover have "[n_id n \<mapsto> n] ++ firstWithId xs = firstWithId xs"
    if "n_id n \<in> dom (firstWithId xs)"
    using that by (auto simp: map_add_def split: option.splits)
  moreover have "[n_id n \<mapsto> n] ++ firstWithId xs = (firstWithId xs)(n_id n \<mapsto> n)"
    if "n_id n \<notin> dom (firstWithId xs)"
    using that by (auto simp: map_add_def fun_eq_iff split: option.splits)
  ultimately show ?thesis using Some by simp
qed

lemma seen_step:
  assumes "distinct (seen st)" and "set (seen st) = dom (firstWithId xs)"
  shows "distinct (seen (forEachEntry st x)) \<and>
         set (seen (forEachEntry st x)) = dom (firstWithId (xs @ [x]))"
  using assms by (auto simp: forEachEntry_def firstWithId_snoc split: option.splits)

lemma seen_foldl:
  "distinct (seen (foldl forEachEntry emptyAlertState xs)) \<and>
   set (seen (foldl forEachEntry emptyAlertState xs)) = dom (firstWithId xs)"
proof (induction xs rule: rev_induct)
  case Nil
  then show ?case
    by (simp add: emptyAlertState_def firstWithId_def normalizedRecords_def List.map_filter_simps)
next
  case (snoc x xs)
  then show ?case using seen_step [of "foldl forEachEntry emptyAlertState xs" xs x] by simp
qed



lemma fever_step:
  assumes "set (seen st) = dom (firstWithId xs)"
    and "distinct (fever st)"
    and "set (fever st) = {i. \<exists>n t. firstWithId xs i = Some n \<and> n_temperature n = Some t \<and> 99.6 \<le> t}"
  shows "distinct (fever (forEachEntry st x)) \<and>
         set (fever (forEachEntry st x)) = {i. \<exists>n t. firstWithId (xs @ [x]) i = Some n \<and> n_temperature n = Some t \<and> 99.6 \<le> t}"
proof (cases "normalizePatient x")
  case None
  then show ?thesis using assms by (simp add: forEachEntry_def firstWithId_snoc)
next
  case (Some n)
  show ?thesis
  proof (cases "n_id n \<in> dom (firstWithId xs)")
    case True
    then show ?thesis using assms Some by (simp add: forEachEntry_def firstWithId_snoc)
  next
    case False
    then have fresh: "firstWithId xs (n_id n) = None" by (simp add: domIff)
    show ?thesis
      using assms Some False fresh
      by (auto simp: forEachEntry_def firstWithId_snoc split: option.splits)
  qed
qed

lemma fever_foldl:
  "distinct (fever (foldl forEachEntry emptyAlertState xs)) \<and>
   set (fever (foldl forEachEntry emptyAlertState xs)) = {i. \<exists>n t. firstWithId xs i = Some n \<and> n_temperature n = Some t \<and> 99.6 \<le> t}"
proof (induction xs rule: rev_induct)
  case Nil
  then show ?case
    by (simp add: emptyAlertState_def firstWithId_def normalizedRecords_def List.map_filter_simps)
next
  case (snoc x xs)
  have known: "set (seen (foldl forEachEntry emptyAlertState xs)) = dom (firstWithId xs)"
    using seen_foldl by blast
  show ?case
    using fever_step [OF known, of x] snoc by simp
qed

lemma dataQuality_step:
  assumes "set (seen st) = dom (firstWithId xs)"
    and "distinct (dataQuality st)"
    and "set (dataQuality st) = {i. \<exists>n. firstWithId xs i = Some n \<and> hasInvalid n}"
  shows "distinct (dataQuality (forEachEntry st x)) \<and>
         set (dataQuality (forEachEntry st x)) = {i. \<exists>n. firstWithId (xs @ [x]) i = Some n \<and> hasInvalid n}"
proof (cases "normalizePatient x")
  case None
  then show ?thesis using assms by (simp add: forEachEntry_def firstWithId_snoc)
next
  case (Some n)
  show ?thesis
  proof (cases "n_id n \<in> dom (firstWithId xs)")
    case True
    then show ?thesis using assms Some by (simp add: forEachEntry_def firstWithId_snoc)
  next
    case False
    then have fresh: "firstWithId xs (n_id n) = None" by (simp add: domIff)
    show ?thesis
      using assms Some False fresh
      by (auto simp: forEachEntry_def firstWithId_snoc)
  qed
qed

lemma dataQuality_foldl:
  "distinct (dataQuality (foldl forEachEntry emptyAlertState xs)) \<and>
   set (dataQuality (foldl forEachEntry emptyAlertState xs)) = {i. \<exists>n. firstWithId xs i = Some n \<and> hasInvalid n}"
proof (induction xs rule: rev_induct)
  case Nil
  then show ?case
    by (simp add: emptyAlertState_def firstWithId_def normalizedRecords_def List.map_filter_simps)
next
  case (snoc x xs)
  have known: "set (seen (foldl forEachEntry emptyAlertState xs)) = dom (firstWithId xs)"
    using seen_foldl by blast
  show ?case
    using dataQuality_step [OF known, of x] snoc by simp
qed



lemma forEachRecords_unreadable:
  assumes "RawNull \<in> set entries \<or> RawUndefined \<in> set entries"
  shows "forEachRecords st entries = Inl EntryTypeError"
  using assms
proof (induction entries arbitrary: st)
  case Nil
  then show ?case by simp
next
  case (Cons entry entries)
  then show ?case by (cases entry) (auto simp: entryFields_def)
qed






lemma classifyRecords_fields:
  "alerts_highRisk (classifyRecords xs) = highRisk (foldl forEachEntry emptyAlertState xs)"
  "alerts_fever (classifyRecords xs) = fever (foldl forEachEntry emptyAlertState xs)"
  "alerts_dataQuality (classifyRecords xs) = dataQuality (foldl forEachEntry emptyAlertState xs)"
  "totalPatients (classifyRecords xs) = length (seen (foldl forEachEntry emptyAlertState xs))"
  by (simp_all add: classifyRecords_def Let_def)





lemma normalizePatient_fields:
  assumes "normalizePatient p = Some n"
  shows "n_temperature n = parseTemperatureValue (temperature p)"
    and "hasInvalid n \<longleftrightarrow>
           (\<not> valid (parseBloodPressureReading (blood_pressure p)) \<or>
            parseTemperatureValue (temperature p) = None \<or> parseAgeValue (age p) = None)"
    and "total n = bpScore n + tempScore n + ageScore n"
  using assms
  by (auto simp: normalizePatient_def Let_def split: option.splits if_splits)

text \<open>
  C6. A patient is in the fever list exactly when the parsed temperature of its (first)
  record is not null and at least 99.6; the test reads the raw temperature, not the
  temperature score.
\<close>

theorem fever_uses_raw_temperature:
  "(i \<in> set (alerts_fever (classifyRecords records)) \<longleftrightarrow>
      (\<exists>n t. firstWithId records i = Some n \<and> n_temperature n = Some t \<and> 99.6 \<le> t)) \<and>
   (normalizePatient p = Some n \<longrightarrow> n_temperature n = parseTemperatureValue (temperature p)) \<and>
   (normalizePatient p = Some n \<longrightarrow>
      (alerts_fever (classifyRecords [p]) = [n_id n] \<longleftrightarrow>
         (\<exists>t. parseTemperatureValue (temperature p) = Some t \<and> 99.6 \<le> t)))"
proof -
  have member: "i \<in> set (alerts_fever (classifyRecords records)) \<longleftrightarrow>
      (\<exists>n t. firstWithId records i = Some n \<and> n_temperature n = Some t \<and> 99.6 \<le> t)"
    using fever_foldl [of records] by (simp add: classifyRecords_fields)
  have raw: "n_temperature n = parseTemperatureValue (temperature p)"
    if "normalizePatient p = Some n"
    using that by (rule normalizePatient_fields)
  have single: "alerts_fever (classifyRecords [p]) = [n_id n] \<longleftrightarrow>
         (\<exists>t. parseTemperatureValue (temperature p) = Some t \<and> 99.6 \<le> t)"
    if "normalizePatient p = Some n"
    using that raw [OF that]
    by (auto simp: classifyRecords_fields forEachEntry_def emptyAlertState_def split: option.splits)
  show ?thesis using member raw single by blast
qed

theorem fever_uses_raw_temperature_witness:
  "map_option tempScore (normalizePatient (samplePatient ''P7'' ''110/70'' 100.0 30)) = Some 1 \<and>
   alerts_fever (classifyRecords [samplePatient ''P7'' ''110/70'' 100.0 30]) = [''P7''] \<and>
   map_option tempScore (normalizePatient (samplePatient ''P8'' ''110/70'' 100.95 30)) = Some 0 \<and>
   alerts_fever (classifyRecords [samplePatient ''P8'' ''110/70'' 100.95 30]) = [''P8''] \<and>
   alerts_fever (classifyRecords [samplePatient ''P9'' ''110/70'' 99.5 30]) \<noteq> [''P9'']"
proof -
  let ?p7 = "samplePatient ''P7'' ''110/70'' 100.0 30"
  let ?n7 = "\<lparr>n_id = ''P7'', bpScore = 1, tempScore = 1, ageScore = 1, total = 3,
              n_temperature = Some 100.0, hasInvalid = False\<rparr>"
  let ?p8 = "samplePatient ''P8'' ''110/70'' 100.95 30"
  let ?n8 = "\<lparr>n_id = ''P8'', bpScore = 1, tempScore = 0, ageScore = 1, total = 2,
              n_temperature = Some 100.95, hasInvalid = False\<rparr>"
  let ?p9 = "samplePatient ''P9'' ''110/70'' 99.5 30"
  let ?n9 = "\<lparr>n_id = ''P9'', bpScore = 1, tempScore = 0, ageScore = 1, total = 2,
              n_temperature = Some 99.5, hasInvalid = False\<rparr>"
  have n7: "normalizePatient ?p7 = Some ?n7" by code_simp
  have n8: "normalizePatient ?p8 = Some ?n8" by code_simp
  have n9: "normalizePatient ?p9 = Some ?n9" by code_simp
  have e7: "\<exists>t. parseTemperatureValue (temperature ?p7) = Some t \<and> 99.6 \<le> t"
    by (rule exI [of _ "100.0"]) (simp add: samplePatient_def parseTemperatureValue_def)
  have e8: "\<exists>t. parseTemperatureValue (temperature ?p8) = Some t \<and> 99.6 \<le> t"
    by (rule exI [of _ "100.95"]) (simp add: samplePatient_def parseTemperatureValue_def)
  have e9: "\<not> (\<exists>t. parseTemperatureValue (temperature ?p9) = Some t \<and> 99.6 \<le> t)"
    by (simp add: samplePatient_def parseTemperatureValue_def)
  have w7: "alerts_fever (classifyRecords [?p7]) = [n_id ?n7] \<longleftrightarrow>
      (\<exists>t. parseTemperatureValue (temperature ?p7) = Some t \<and> 99.6 \<le> t)"
    using fever_uses_raw_temperature [of _ _ ?p7 ?n7] n7 by blast
  have w8: "alerts_fever (classifyRecords [?p8]) = [n_id ?n8] \<longleftrightarrow>
      (\<exists>t. parseTemperatureValue (temperature ?p8) = Some t \<and> 99.6 \<le> t)"
    using fever_uses_raw_temperature [of _ _ ?p8 ?n8] n8 by blast
  have w9: "alerts_fever (classifyRecords [?p9]) = [n_id ?n9] \<longleftrightarrow>
      (\<exists>t. parseTemperatureValue (temperature ?p9) = Some t \<and> 99.6 \<le> t)"
    using fever_uses_raw_temperature [of _ _ ?p9 ?n9] n9 by blast
  have "alerts_fever (classifyRecords [?p7]) = [n_id ?n7]"
    using w7 e7 by blast
  then have f7: "alerts_fever (classifyRecords [?p7]) = [''P7'']"
    by simp
  have "alerts_fever (classifyRecords [?p8]) = [n_id ?n8]"
    using w8 e8 by blast
  then have f8: "alerts_fever (classifyRecords [?p8]) = [''P8'']"
    by simp
  have "alerts_fever (classifyRecords [?p9]) \<noteq> [n_id ?n9]"
    using w9 e9 by blast
  then have f9: "alerts_fever (classifyRecords [?p9]) \<noteq> [''P9'']"
    by simp
  show ?thesis using n7 n8 f7 f8 f9 by simp
qed

lemma split_without_separator:
  assumes "sep \<notin> set str"
  shows "split sep str = [str]"
  using assms by (induction str) auto

lemma stripLeading_Nil: "stripLeading codes [] = []"
  by (subst stripLeading.simps) (auto simp: startsWith_def find_Some_iff split: option.splits)

lemma parseNumber_empty: "parseNumber [] = None"
  by (simp add: parseNumber_def trim_def stripLeading_Nil)

lemma valid_invalidReading: "\<not> valid invalidReading"
  by (simp add: invalidReading_def)

lemma valid_parseBloodPressureReading:
  "valid (parseBloodPressureReading raw) \<longleftrightarrow>
     (\<exists>str a b rest x y. raw = JString str \<and> split CHR ''/'' (trim str) = a # b # rest \<and>
        parseNumber a = Some x \<and> parseNumber b = Some y)"
proof (cases raw)
  case (JString str)
  show ?thesis
  proof (cases "CHR ''/'' \<in> set (trim str)")
    case True
    then show ?thesis
      using JString
      by (auto simp: parseBloodPressureReading_def Let_def valid_invalidReading parseNumber_empty
          split: list.splits option.splits)
  next
    case False
    then show ?thesis
      using JString split_without_separator [OF False]
      by (simp add: parseBloodPressureReading_def Let_def valid_invalidReading)
  qed
qed (simp_all add: parseBloodPressureReading_def valid_invalidReading)

text \<open>
  C7. A record is in the data-quality list exactly when its blood pressure, its
  temperature or its age failed to parse (a blood pressure parses when it is a string
  whose first two parts around \<open>/\<close> are both numbers); a record whose blood pressure is
  \<open>bad/data\<close> is a data-quality issue whatever its temperature and age.
\<close>

theorem dataQuality_iff_parse_failure:
  "(i \<in> set (alerts_dataQuality (classifyRecords records)) \<longleftrightarrow>
      (\<exists>n. firstWithId records i = Some n \<and> hasInvalid n)) \<and>
   (normalizePatient p = Some n \<longrightarrow>
      (hasInvalid n \<longleftrightarrow>
         (\<not> valid (parseBloodPressureReading (blood_pressure p)) \<or>
          parseTemperatureValue (temperature p) = None \<or> parseAgeValue (age p) = None))) \<and>
   (valid (parseBloodPressureReading raw) \<longleftrightarrow>
      (\<exists>str a b rest x y. raw = JString str \<and> split CHR ''/'' (trim str) = a # b # rest \<and>
         parseNumber a = Some x \<and> parseNumber b = Some y)) \<and>
   (normalizePatient p = Some n \<and> blood_pressure p = JString ''bad/data'' \<longrightarrow>
      hasInvalid n \<and> alerts_dataQuality (classifyRecords [p]) = [n_id n])"
proof -
  have member: "i \<in> set (alerts_dataQuality (classifyRecords records)) \<longleftrightarrow>
      (\<exists>n. firstWithId records i = Some n \<and> hasInvalid n)"
    using dataQuality_foldl [of records] by (simp add: classifyRecords_fields)
  have flag: "hasInvalid n \<longleftrightarrow>
         (\<not> valid (parseBloodPressureReading (blood_pressure p)) \<or>
          parseTemperatureValue (temperature p) = None \<or> parseAgeValue (age p) = None)"
    if "normalizePatient p = Some n"
    using that by (rule normalizePatient_fields)
  have bad: "parseBloodPressureReading (JString ''bad/data'') = invalidReading"
    by code_simp
  have example: "hasInvalid n \<and> alerts_dataQuality (classifyRecords [p]) = [n_id n]"
    if "normalizePatient p = Some n" "blood_pressure p = JString ''bad/data''"
  proof -
    have "hasInvalid n"
      using flag [OF that(1)] that(2) bad by (simp add: valid_invalidReading)
    then show ?thesis
      using that(1)
      by (simp add: classifyRecords_fields forEachEntry_def emptyAlertState_def)
  qed
  show ?thesis
    using member flag valid_parseBloodPressureReading [of raw] example by blast
qed

theorem dataQuality_iff_parse_failure_witness:
  "map_option hasInvalid (normalizePatient (samplePatient ''P3'' ''bad/data'' 98.6 30)) = Some True \<and>
   alerts_dataQuality (classifyRecords [samplePatient ''P3'' ''bad/data'' 98.6 30]) = [''P3''] \<and>
   map_option hasInvalid (normalizePatient (samplePatient ''P4'' ''120/80'' 98.6 30)) = Some False"
proof -
  let ?p3 = "samplePatient ''P3'' ''bad/data'' 98.6 30"
  let ?n3 = "\<lparr>n_id = ''P3'', bpScore = 0, tempScore = 0, ageScore = 1, total = 1,
              n_temperature = Some 98.6, hasInvalid = True\<rparr>"
  have n3: "normalizePatient ?p3 = Some ?n3" by code_simp
  have bp3: "blood_pressure ?p3 = JString ''bad/data''" by (simp add: samplePatient_def)
  have "hasInvalid ?n3 \<and> alerts_dataQuality (classifyRecords [?p3]) = [n_id ?n3]"
    using dataQuality_iff_parse_failure [of _ _ ?p3 ?n3] n3 bp3 by blast
  then have "alerts_dataQuality (classifyRecords [?p3]) = [''P3'']"
    by simp
  moreover have "map_option hasInvalid (normalizePatient (samplePatient ''P4'' ''120/80'' 98.6 30)) = Some False"
    by code_simp
  ultimately show ?thesis using n3 by simp
qed

section \<open>Properties of the fetch client\<close>

lemma trace_fetch:
  assumes "fetch net u apiKey s = (outcome, s1)"
  shows "trace s1 = trace s @ [Fetch u]" and "net (world s) u apiKey = (outcome, world s1)"
  using assms by (auto simp: fetch_def split: prod.splits)

lemma trace_wait: "trace (wait ms s) = trace s @ [Wait ms]"
  by (simp add: wait_def)

lemma world_wait: "world (wait ms s) = world s"
  by (simp add: wait_def)

text \<open>
  One round of the retry loop. Whether the status is retriable makes no difference: a
  response that is not \<open>ok\<close> leads to the next attempt whenever attempts remain.
\<close>

lemma fetchWithRetry_loop_round:
  assumes "attempt0 < MAX_ATTEMPTS" and "fetch net u apiKey s = (outcome, s1)"
  shows "fetchWithRetry_loop net u apiKey attempt0 s =
    (case outcome of
       Resolved response \<Rightarrow>
         if ok response then (Inr response, s1)
         else if Suc attempt0 < MAX_ATTEMPTS then
           fetchWithRetry_loop net u apiKey (Suc attempt0) (wait (backoffDelay (Suc attempt0)) s1)
         else (Inl (StatusError (status response)
                     (case text_body response of None \<Rightarrow> [] | Some body \<Rightarrow> body)), s1)
     | Rejected message \<Rightarrow>
         if Suc attempt0 < MAX_ATTEMPTS then
           fetchWithRetry_loop net u apiKey (Suc attempt0) (wait (backoffDelay (Suc attempt0)) s1)
         else (Inl (TransportError message), s1))"
  using assms
  by (subst fetchWithRetry_loop.simps)
     (auto simp: Let_def backoffDelay_def BASE_DELAY_MS_def split: FetchOutcome.splits)

lemma fetchWithRetry_loop_done:
  assumes "\<not> attempt0 < MAX_ATTEMPTS"
  shows "fetchWithRetry_loop net u apiKey attempt0 s = (Inl ExceededMaxRetries, s)"
  using assms by (subst fetchWithRetry_loop.simps) simp

text \<open>The effects of the loop from attempt \<open>attempt0 + 1\<close> on, when the last attempt made is the \<open>k\<close>-th.\<close>

lemma fetchWithRetry_loop_trace:
  assumes "attempt0 < MAX_ATTEMPTS"
  shows "\<exists>k. attempt0 < k \<and> k \<le> MAX_ATTEMPTS \<and>
           trace (snd (fetchWithRetry_loop net u apiKey attempt0 s)) =
             trace s @ concat (map (\<lambda>n. [Fetch u, Wait (backoffDelay n)]) [Suc attempt0..<k]) @ [Fetch u] \<and>
           (\<forall>e. fst (fetchWithRetry_loop net u apiKey attempt0 s) = Inl e \<longrightarrow> k = MAX_ATTEMPTS)"
  using assms
proof (induction "MAX_ATTEMPTS - attempt0" arbitrary: attempt0 s)
  case 0
  then show ?case by simp
next
  case (Suc d)
  obtain outcome s1 where f: "fetch net u apiKey s = (outcome, s1)"
    by (cases "fetch net u apiKey s") auto
  note round = fetchWithRetry_loop_round [OF Suc.prems f]
  note tr = trace_fetch(1) [OF f]
  have stop: "\<exists>k. attempt0 < k \<and> k \<le> MAX_ATTEMPTS \<and>
           trace s1 = trace s @ concat (map (\<lambda>n. [Fetch u, Wait (backoffDelay n)]) [Suc attempt0..<k]) @ [Fetch u] \<and>
           (final \<longrightarrow> k = MAX_ATTEMPTS)"
    if "final \<longrightarrow> \<not> Suc attempt0 < MAX_ATTEMPTS" for final
    using that Suc.prems tr by (intro exI [of _ "Suc attempt0"]) auto
  have continue: "\<exists>k. attempt0 < k \<and> k \<le> MAX_ATTEMPTS \<and>
           trace (snd (fetchWithRetry_loop net u apiKey (Suc attempt0) (wait (backoffDelay (Suc attempt0)) s1))) =
             trace s @ concat (map (\<lambda>n. [Fetch u, Wait (backoffDelay n)]) [Suc attempt0..<k]) @ [Fetch u] \<and>
           (\<forall>e. fst (fetchWithRetry_loop net u apiKey (Suc attempt0) (wait (backoffDelay (Suc attempt0)) s1)) = Inl e
              \<longrightarrow> k = MAX_ATTEMPTS)"
    if more: "Suc attempt0 < MAX_ATTEMPTS"
  proof -
    have "d = MAX_ATTEMPTS - Suc attempt0" using Suc.hyps(2) by simp
    from Suc.hyps(1) [OF this more, of "wait (backoffDelay (Suc attempt0)) s1"]
    obtain k where k: "Suc attempt0 < k" "k \<le> MAX_ATTEMPTS"
      "trace (snd (fetchWithRetry_loop net u apiKey (Suc attempt0) (wait (backoffDelay (Suc attempt0)) s1))) =
         trace (wait (backoffDelay (Suc attempt0)) s1) @
         concat (map (\<lambda>n. [Fetch u, Wait (backoffDelay n)]) [Suc (Suc attempt0)..<k]) @ [Fetch u]"
      "\<forall>e. fst (fetchWithRetry_loop net u apiKey (Suc attempt0) (wait (backoffDelay (Suc attempt0)) s1)) = Inl e
              \<longrightarrow> k = MAX_ATTEMPTS"
      by blast
    have "[Suc attempt0..<k] = Suc attempt0 # [Suc (Suc attempt0)..<k]"
      using k(1) by (simp add: upt_conv_Cons)
    then show ?thesis
      using k by (intro exI [of _ k]) (simp add: trace_wait tr)
  qed
  show ?case
  proof (cases outcome)
    case (Resolved response)
    show ?thesis
    proof (cases "ok response")
      case True
      then show ?thesis using round Resolved stop [of False] by simp
    next
      case False
      then show ?thesis
        using round Resolved stop [of True] continue
        by (cases "Suc attempt0 < MAX_ATTEMPTS") simp_all
    qed
  next
    case (Rejected message)
    then show ?thesis
      using round stop [of True] continue
      by (cases "Suc attempt0 < MAX_ATTEMPTS") simp_all
  qed
qed

text \<open>A response the loop returns is \<open>ok\<close> and is an answer of the service to this request.\<close>

lemma fetchWithRetry_loop_Inr:
  assumes "fetchWithRetry_loop net u apiKey attempt0 s = (Inr response, s')"
  shows "ok response \<and> (\<exists>w w'. net w u apiKey = (Resolved response, w'))"
  using assms
proof (induction "MAX_ATTEMPTS - attempt0" arbitrary: attempt0 s)
  case 0
  then show ?case by (simp add: fetchWithRetry_loop_done)
next
  case (Suc d)
  have more: "attempt0 < MAX_ATTEMPTS" using Suc.hyps(2) by simp
  obtain outcome s1 where f: "fetch net u apiKey s = (outcome, s1)"
    by (cases "fetch net u apiKey s") auto
  note round = fetchWithRetry_loop_round [OF more f]
  have d: "d = MAX_ATTEMPTS - Suc attempt0" using Suc.hyps(2) by simp
  show ?case
  proof (cases outcome)
    case (Resolved r)
    show ?thesis
    proof (cases "ok r")
      case True
      then show ?thesis
        using round Resolved Suc.prems trace_fetch(2) [OF f] by auto
    next
      case False
      then show ?thesis
        using round Resolved Suc.prems Suc.hyps(1) [OF d]
        by (cases "Suc attempt0 < MAX_ATTEMPTS") auto
    qed
  next
    case (Rejected message)
    then show ?thesis
      using round Suc.prems Suc.hyps(1) [OF d]
      by (cases "Suc attempt0 < MAX_ATTEMPTS") auto
  qed
qed

lemma fetchWithRetry_first_ok:
  assumes "net (world s) u apiKey = (Resolved response, w)" and "ok response"
  shows "fetchWithRetry net u apiKey s = (Inr response, \<lparr>world = w, trace = trace s @ [Fetch u]\<rparr>)"
proof -
  have "fetch net u apiKey s = (Resolved response, \<lparr>world = w, trace = trace s @ [Fetch u]\<rparr>)"
    using assms(1) by (simp add: fetch_def)
  from fetchWithRetry_loop_round [OF _ this, of 0] assms(2) show ?thesis
    by (simp add: fetchWithRetry_def MAX_ATTEMPTS_def)
qed

lemma attemptsWithBackoff_counts:
  "fetchCount (attemptsWithBackoff u k) = k - 1 + 1"
  "totalDelay (attemptsWithBackoff u k) = (\<Sum>n\<leftarrow>[1..<k]. backoffDelay n)"
  by (induction k) (auto simp: attemptsWithBackoff_def fetchCount_def totalDelay_def)

text \<open>
  The parts of C1 that hold: a call makes at least one and at most five attempts, and it
  ends in an error only after the fifth.
\<close>

lemma fetchWithRetry_attempts:
  "\<exists>k. 1 \<le> k \<and> k \<le> 5 \<and>
     trace (snd (fetchWithRetry net u apiKey s)) = trace s @ attemptsWithBackoff u k \<and>
     (\<forall>e. fst (fetchWithRetry net u apiKey s) = Inl e \<longrightarrow> k = 5)"
proof -
  have "0 < MAX_ATTEMPTS" by (simp add: MAX_ATTEMPTS_def)
  from fetchWithRetry_loop_trace [OF this, of net u apiKey s]
  obtain k where k: "0 < k" "k \<le> MAX_ATTEMPTS"
    "trace (snd (fetchWithRetry_loop net u apiKey 0 s)) =
       trace s @ concat (map (\<lambda>n. [Fetch u, Wait (backoffDelay n)]) [Suc 0..<k]) @ [Fetch u]"
    "\<forall>e. fst (fetchWithRetry_loop net u apiKey 0 s) = Inl e \<longrightarrow> k = MAX_ATTEMPTS"
    by blast
  then show ?thesis
    by (intro exI [of _ k]) (simp add: fetchWithRetry_def attemptsWithBackoff_def MAX_ATTEMPTS_def)
qed

lemma fetchWithRetry_five_500:
  "fetchWithRetry scriptedNetwork (PatientsUrl 1 5) ''secret''
     (startOf (replicate 6 (Resolved (statusOnly 500 ''boom'' :: nat Response)))) =
   (Inl (StatusError 500 ''boom''),
    \<lparr>world = [Resolved (statusOnly 500 ''boom'')],
     trace = [Fetch (PatientsUrl 1 5), Wait 300, Fetch (PatientsUrl 1 5), Wait 600,
              Fetch (PatientsUrl 1 5), Wait 1200, Fetch (PatientsUrl 1 5), Wait 2400,
              Fetch (PatientsUrl 1 5)]\<rparr>)"
  by code_simp

text \<open>
  C1. The specification retries a response exactly when its status is 429, 500 or 503 (or
  the request fails) and ends the call at once on any other failure status. In the code
  the error for such a status is thrown inside the \<open>try\<close> block and caught by its own
  \<open>catch\<close> clause, which waits and lets the loop go on: a 404 followed by a 200 is
  retried after 300 ms and the call succeeds.
\<close>

theorem fetchWithRetry_retries_404:
  "fetchWithRetry scriptedNetwork (PatientsUrl 1 5) ''secret''
     (startOf [Resolved (statusOnly 404 ''not found''), Resolved (jsonPage [7 :: nat] None)]) =
   (Inr (jsonPage [7] None),
    \<lparr>world = [],
     trace = [Fetch (PatientsUrl 1 5), Wait 300, Fetch (PatientsUrl 1 5)]\<rparr>)"
  by code_simp

text \<open>
  C4. Within a call the delay before attempt \<open>n + 1\<close> is \<open>min(300 * 2^(n-1), 4000)\<close>
  milliseconds, with no jitter: a call that makes \<open>k\<close> attempts (at most five) does
  attempt 1, waits \<open>backoffDelay 1\<close>, attempt 2, waits \<open>backoffDelay 2\<close>, and so on up to
  attempt \<open>k\<close>. For a service answering 503, 503, 200 the call succeeds after waiting
  300 + 600 milliseconds in all.
\<close>

theorem fetchWithRetry_backoff:
  "(\<exists>k. 1 \<le> k \<and> k \<le> 5 \<and>
      trace (snd (fetchWithRetry net u apiKey s)) = trace s @ attemptsWithBackoff u k) \<and>
   map backoffDelay [1, 2, 3, 4] = [300, 600, 1200, 2400] \<and>
   fst (fetchWithRetry scriptedNetwork (PatientsUrl 1 5) ''secret''
          (startOf [Resolved (statusOnly 503 ''busy''), Resolved (statusOnly 503 ''busy''),
                    Resolved (jsonPage [7 :: nat] None)])) = Inr (jsonPage [7] None) \<and>
   totalDelay (trace (snd (fetchWithRetry scriptedNetwork (PatientsUrl 1 5) ''secret''
          (startOf [Resolved (statusOnly 503 ''busy''), Resolved (statusOnly 503 ''busy''),
                    Resolved (jsonPage [7 :: nat] None)])))) = 300 + 600"
proof -
  have shape: "\<exists>k. 1 \<le> k \<and> k \<le> 5 \<and>
      trace (snd (fetchWithRetry net u apiKey s)) = trace s @ attemptsWithBackoff u k"
    using fetchWithRetry_attempts [of net u apiKey s] by blast
  have delays: "map backoffDelay [1, 2, 3, 4] = [300, 600, 1200, 2400]"
    by (simp add: backoffDelay_def)
  have run: "fetchWithRetry scriptedNetwork (PatientsUrl 1 5) ''secret''
          (startOf [Resolved (statusOnly 503 ''busy''), Resolved (statusOnly 503 ''busy''),
                    Resolved (jsonPage [7 :: nat] None)]) =
      (Inr (jsonPage [7] None),
       \<lparr>world = [],
        trace = [Fetch (PatientsUrl 1 5), Wait 300, Fetch (PatientsUrl 1 5), Wait 600,
                 Fetch (PatientsUrl 1 5)]\<rparr>)"
    by code_simp
  have total: "totalDelay [Fetch (PatientsUrl 1 5), Wait 300, Fetch (PatientsUrl 1 5), Wait 600,
                 Fetch (PatientsUrl 1 5)] = 300 + 600"
    by (simp add: totalDelay_def)
  show ?thesis
    using shape delays total by (simp add: run)
qed

theorem fetchWithRetry_backoff_witness:
  "\<exists>k. 1 \<le> k \<and> k \<le> 5 \<and>
      trace (snd (fetchWithRetry scriptedNetwork SubmitAssessmentUrl ''secret''
                    (startOf [Rejected ''down'', Resolved (jsonPage [7 :: nat] None)]))) =
        attemptsWithBackoff SubmitAssessmentUrl k"
  using fetchWithRetry_backoff [of scriptedNetwork SubmitAssessmentUrl "''secret''"
      "startOf [Rejected ''down'', Resolved (jsonPage [7 :: nat] None)]"]
  by (simp add: startOf_def)

lemma afterPage_fields:
  "page (afterPage maxPages st payload) = page st + 1"
  "pagesFetched (afterPage maxPages st payload) = pagesFetched st + 1"
  "totalPages (afterPage maxPages st payload) = latestTotalPages (totalPages st) payload"
  "patients (afterPage maxPages st payload) =
     patients st @ (case data payload of None \<Rightarrow> [] | Some d \<Rightarrow> d)"
  by (simp_all add: afterPage_def Let_def latestTotalPages_def reportedTotalPages_def)

text \<open>With a \<open>hasNext\<close> field that is a boolean or absent, the loop body follows the carried rule.\<close>

lemma afterPage_carried:
  assumes "hasNextAsDeclared payload"
  shows "afterPage maxPages st payload = carriedPaging maxPages st payload"
  using assms
  by (auto simp: afterPage_def carriedPaging_def carriedHasNext_def hasNextAsDeclared_def
      explicitHasNext_def latestTotalPages_def reportedTotalPages_def reportedPage_def
      nonEmptyPage_def Let_def split: option.splits jsval.splits)

text \<open>A \<open>hasNext\<close> that is null is taken as the flag: the loop stops, whatever else the page says.\<close>

lemma afterPage_null_flag:
  assumes "pagination payload = Some pg" and "pg_hasNext pg = JNull"
  shows "\<not> truthy (hasNext (afterPage maxPages st payload))"
  using assms by (simp add: afterPage_def Let_def truthy_def)

lemma fetchAllPatients_loop_exit:
  assumes "\<not> (truthy (hasNext st) \<and> page st \<le> maxPages)"
  shows "fetchAllPatients_loop net apiKey limit maxPages st s = (Inr st, s)"
  using assms by (subst fetchAllPatients_loop.simps) auto

lemma fetchAllPatients_loop_round:
  assumes "truthy (hasNext st)" and "page st \<le> maxPages"
  shows "fetchAllPatients_loop net apiKey limit maxPages st s =
    (case fetchWithRetry net (buildPatientsUrl (page st) limit) apiKey s of
       (Inl err, s1) \<Rightarrow> (Inl err, s1)
     | (Inr response, s1) \<Rightarrow>
         (case json_body response of
            None \<Rightarrow> (Inl JsonRejected, s1)
          | Some payload \<Rightarrow>
              fetchAllPatients_loop net apiKey limit maxPages (afterPage maxPages st payload) s1))"
  using assms by (subst fetchAllPatients_loop.simps) simp

text \<open>
  What holds of the state the paging loop returns, given an invariant \<open>I\<close> of the loop
  body over the responses the service can give.
\<close>

lemma fetchAllPatients_loop_invariant:
  assumes result: "fetchAllPatients_loop net apiKey limit maxPages st s = (Inr st', s')"
    and start: "I st"
    and step: "\<And>st0 response payload w w' u.
        I st0 \<Longrightarrow> net w u apiKey = (Resolved response, w') \<Longrightarrow>
        json_body response = Some payload \<Longrightarrow> I (afterPage maxPages st0 payload)"
  shows "I st' \<and> \<not> (truthy (hasNext st') \<and> page st' \<le> maxPages)"
  using result start
proof (induction "nat (maxPages + 1 - page st)" arbitrary: st s rule: less_induct)
  case less
  show ?case
  proof (cases "truthy (hasNext st) \<and> page st \<le> maxPages")
    case False
    then show ?thesis
      using less.prems fetchAllPatients_loop_exit [OF False, of net apiKey limit s] by auto
  next
    case True
    then have round: "fetchAllPatients_loop net apiKey limit maxPages st s =
      (case fetchWithRetry net (buildPatientsUrl (page st) limit) apiKey s of
         (Inl err, s1) \<Rightarrow> (Inl err, s1)
       | (Inr response, s1) \<Rightarrow>
           (case json_body response of
              None \<Rightarrow> (Inl JsonRejected, s1)
            | Some payload \<Rightarrow>
                fetchAllPatients_loop net apiKey limit maxPages (afterPage maxPages st payload) s1))"
      by (simp add: fetchAllPatients_loop_round)
    obtain res s1 where fw: "fetchWithRetry net (buildPatientsUrl (page st) limit) apiKey s = (res, s1)"
      by (cases "fetchWithRetry net (buildPatientsUrl (page st) limit) apiKey s") auto
    from less.prems(1) round fw obtain response payload where
      r: "res = Inr response" "json_body response = Some payload"
      and rest: "fetchAllPatients_loop net apiKey limit maxPages (afterPage maxPages st payload) s1 = (Inr st', s')"
      by (auto split: sum.splits option.splits)
    from fw r(1) obtain w w' where
      "net w (buildPatientsUrl (page st) limit) apiKey = (Resolved response, w')"
      using fetchWithRetry_loop_Inr [of net "buildPatientsUrl (page st) limit" apiKey 0 s response s1]
      by (auto simp: fetchWithRetry_def)
    then have inv: "I (afterPage maxPages st payload)"
      using step [OF less.prems(2) _ r(2)] by blast
    have smaller: "nat (maxPages + 1 - page (afterPage maxPages st payload)) < nat (maxPages + 1 - page st)"
      using True by (simp add: afterPage_fields)
    show ?thesis
      using less.hyps [OF smaller rest inv] .
  qed
qed

lemma fetchAllPatients_Inr:
  assumes "fetchAllPatients net env options s = (Inr res, s')"
  shows "\<exists>apiKey st. getApiKey env = Inr apiKey \<and>
     fetchAllPatients_loop net apiKey (case opt_limit options of None \<Rightarrow> 5 | Some l \<Rightarrow> l)
       (case opt_maxPages options of None \<Rightarrow> 10 | Some m \<Rightarrow> m) initialPaging s = (Inr st, s') \<and>
     res = \<lparr>res_patients = patients st, res_pagesFetched = pagesFetched st,
            res_totalPages = (case totalPages st of None \<Rightarrow> pagesFetched st | Some t \<Rightarrow> t),
            res_limit = (case opt_limit options of None \<Rightarrow> 5 | Some l \<Rightarrow> l)\<rparr>"
  using assms
  by (auto simp: fetchAllPatients_def Let_def split: sum.splits prod.splits)

text \<open>
  C2, as the loop does it, for page bodies whose \<open>hasNext\<close> is a boolean or absent. After
  each successful page the loop goes on in the state whose \<open>hasNext\<close> is: the explicit
  flag of the response if present; else the page number (the one the response reports,
  or the loop's counter) compared with the \<open>totalPages\<close> most recently reported by this or
  an earlier response, if any; else whether the page was non-empty and the counter is
  below \<open>maxPages\<close>. The loop ends when \<open>hasNext\<close> is false or the counter exceeds
  \<open>maxPages\<close>, and the result's \<open>totalPages\<close> is the number of pages fetched when no
  response reported one.
\<close>

theorem hasNext_priority_carried:
  assumes "hasNextAsDeclared payload"
  shows "afterPage maxPages st payload = carriedPaging maxPages st payload \<and>
   (truthy (hasNext st) \<and> page st \<le> maxPages \<and>
    fetchWithRetry net (buildPatientsUrl (page st) limit) apiKey s = (Inr response, after) \<and>
    json_body response = Some payload \<longrightarrow>
      fetchAllPatients_loop net apiKey limit maxPages st s =
      fetchAllPatients_loop net apiKey limit maxPages (carriedPaging maxPages st payload) after) \<and>
   (\<not> truthy (hasNext st) \<or> maxPages < page st \<longrightarrow>
      fetchAllPatients_loop net apiKey limit maxPages st s = (Inr st, s)) \<and>
   (fetchAllPatients_loop net apiKey limit maxPages st s = (Inr st', s') \<longrightarrow>
      \<not> truthy (hasNext st') \<or> maxPages < page st') \<and>
   (fetchAllPatients net env options s = (Inr res, s') \<and>
    (\<forall>w u w' response payload pg.
        net w u (case getApiKey env of Inr k \<Rightarrow> k | Inl _ \<Rightarrow> []) = (Resolved response, w') \<and>
        json_body response = Some payload \<and> pagination payload = Some pg
          \<longrightarrow> pg_totalPages pg = None)
      \<longrightarrow> res_totalPages res = res_pagesFetched res)"
proof -
  have body: "afterPage maxPages st payload = carriedPaging maxPages st payload"
    using assms by (rule afterPage_carried)
  have round: "fetchAllPatients_loop net apiKey limit maxPages st s =
      fetchAllPatients_loop net apiKey limit maxPages (carriedPaging maxPages st payload) after"
    if "truthy (hasNext st)" "page st \<le> maxPages"
      "fetchWithRetry net (buildPatientsUrl (page st) limit) apiKey s = (Inr response, after)"
      "json_body response = Some payload"
    using that by (subst fetchAllPatients_loop.simps) (simp add: body)
  have exit: "fetchAllPatients_loop net apiKey limit maxPages st s = (Inr st, s)"
    if "\<not> truthy (hasNext st) \<or> maxPages < page st"
    using that by (subst fetchAllPatients_loop.simps) auto
  have ended: "\<not> truthy (hasNext st') \<or> maxPages < page st'"
    if "fetchAllPatients_loop net apiKey limit maxPages st s = (Inr st', s')"
    using fetchAllPatients_loop_invariant [OF that, of "\<lambda>_. True"] by auto
  have unreported: "res_totalPages res = res_pagesFetched res"
    if run: "fetchAllPatients net env options s = (Inr res, s')"
      and never: "\<forall>w u w' response payload pg.
        net w u (case getApiKey env of Inr k \<Rightarrow> k | Inl _ \<Rightarrow> []) = (Resolved response, w') \<and>
        json_body response = Some payload \<and> pagination payload = Some pg
          \<longrightarrow> pg_totalPages pg = None"
  proof -
    from fetchAllPatients_Inr [OF run] obtain key final where
      key: "getApiKey env = Inr key"
      and loop: "fetchAllPatients_loop net key (case opt_limit options of None \<Rightarrow> 5 | Some l \<Rightarrow> l)
         (case opt_maxPages options of None \<Rightarrow> 10 | Some m \<Rightarrow> m) initialPaging s = (Inr final, s')"
      and res: "res = \<lparr>res_patients = patients final, res_pagesFetched = pagesFetched final,
            res_totalPages = (case totalPages final of None \<Rightarrow> pagesFetched final | Some t \<Rightarrow> t),
            res_limit = (case opt_limit options of None \<Rightarrow> 5 | Some l \<Rightarrow> l)\<rparr>"
      by blast
    have "totalPages final = None \<and>
        \<not> (truthy (hasNext final) \<and>
           page final \<le> (case opt_maxPages options of None \<Rightarrow> 10 | Some m \<Rightarrow> m))"
    proof (rule fetchAllPatients_loop_invariant [OF loop, of "\<lambda>st. totalPages st = None"])
      show "totalPages (initialPaging :: 'a PagingState) = None"
        by (simp add: initialPaging_def)
    next
      fix st0 :: "'a PagingState" and response payload w w' u
      assume "totalPages st0 = None" "net w u key = (Resolved response, w')"
        "json_body response = Some payload"
      then show "totalPages (afterPage (case opt_maxPages options of None \<Rightarrow> 10 | Some m \<Rightarrow> m) st0 payload) = None"
        using never key
        by (auto simp: afterPage_fields latestTotalPages_def reportedTotalPages_def split: option.splits)
    qed
    then show ?thesis by (simp add: res)
  qed
  show ?thesis
    using body round exit ended unreported by blast
qed

theorem hasNext_priority_carried_witness:
  "fetchAllPatients_loop scriptedNetwork ''secret'' 5 10 (afterPage 10 initialPaging reportingPayload)
       (startOf [Resolved (okJson barePayload), Resolved (okJson lastPayload)]) =
     (Inr \<lparr>patients = [1], page = 4, pagesFetched = 3, hasNext = JBool False, totalPages = Some 3\<rparr>,
      \<lparr>world = [], trace = [Fetch (PatientsUrl 2 5), Fetch (PatientsUrl 3 5)]\<rparr>) \<and>
   carriedHasNext 10 2 (Some 3) barePayload \<and>
   \<not> carriedHasNext 10 3 (Some 3) lastPayload \<and>
   fst (fetchAllPatients alwaysNextNetwork configuredEnv \<lparr>opt_limit = None, opt_maxPages = Some 3\<rparr>
          (startOf 0)) =
     Inr \<lparr>res_patients = [0, 1, 2], res_pagesFetched = 3, res_totalPages = 3, res_limit = 5\<rparr>"
proof -
  let ?st = "afterPage 10 initialPaging reportingPayload"
  let ?s = "startOf [Resolved (okJson barePayload), Resolved (okJson lastPayload)]"
  let ?st2 = "\<lparr>patients = [1 :: nat], page = 3, pagesFetched = 2, hasNext = JBool True,
               totalPages = Some 3\<rparr>"
  let ?s2 = "\<lparr>world = [Resolved (okJson lastPayload)], trace = [Fetch (PatientsUrl 2 5)]\<rparr>"
  let ?st3 = "\<lparr>patients = [1 :: nat], page = 4, pagesFetched = 3, hasNext = JBool False,
               totalPages = Some 3\<rparr>"
  let ?s3 = "\<lparr>world = [] :: nat FetchOutcome list,
              trace = [Fetch (PatientsUrl 2 5), Fetch (PatientsUrl 3 5)]\<rparr>"
  let ?res = "\<lparr>res_patients = [0, 1, 2 :: nat], res_pagesFetched = 3, res_totalPages = 3, res_limit = 5\<rparr>"
  let ?final = "\<lparr>world = 3 :: nat,
               trace = [Fetch (PatientsUrl 1 5), Fetch (PatientsUrl 2 5), Fetch (PatientsUrl 3 5)]\<rparr>"
  have bare: "hasNextAsDeclared barePayload" and last: "hasNextAsDeclared lastPayload"
    by code_simp+
  note second = hasNext_priority_carried
    [OF bare, where maxPages = 10 and st = ?st and net = scriptedNetwork and limit = 5
       and apiKey = "''secret''" and s = ?s and after = ?s2 and response = "okJson barePayload"]
  note third = hasNext_priority_carried
    [OF last, where maxPages = 10 and st = ?st2 and net = scriptedNetwork and limit = 5
       and apiKey = "''secret''" and s = ?s2 and after = ?s3 and response = "okJson lastPayload"]
  note stop = hasNext_priority_carried
    [OF last, where maxPages = 10 and st = ?st3 and net = scriptedNetwork and limit = 5
       and apiKey = "''secret''" and s = ?s3]
  note totals = hasNext_priority_carried
    [OF bare, where net = alwaysNextNetwork and env = configuredEnv
       and options = "\<lparr>opt_limit = None, opt_maxPages = Some 3\<rparr>"
       and s = "startOf 0" and res = ?res and s' = ?final]
  have st: "truthy (hasNext ?st)" "page ?st \<le> 10" by code_simp+
  have st2: "truthy (hasNext ?st2)" "page ?st2 \<le> 10" by (simp_all add: truthy_def)
  have st3: "\<not> truthy (hasNext ?st3)" by (simp add: truthy_def)
  have attempt2: "fetchWithRetry scriptedNetwork (buildPatientsUrl (page ?st) 5) ''secret'' ?s =
      (Inr (okJson barePayload), ?s2)"
    by code_simp
  have attempt3: "fetchWithRetry scriptedNetwork (buildPatientsUrl (page ?st2) 5) ''secret'' ?s2 =
      (Inr (okJson lastPayload), ?s3)"
    by code_simp
  have bodies: "json_body (okJson barePayload) = Some barePayload"
    "json_body (okJson lastPayload) = Some lastPayload"
    by (simp_all add: okJson_def)
  have next2: "carriedPaging 10 ?st barePayload = ?st2" by code_simp
  have next3: "carriedPaging 10 ?st2 lastPayload = ?st3" by code_simp
  have carried: "carriedHasNext 10 2 (Some 3) barePayload" "\<not> carriedHasNext 10 3 (Some 3) lastPayload"
    by code_simp+
  have run: "fetchAllPatients alwaysNextNetwork configuredEnv \<lparr>opt_limit = None, opt_maxPages = Some 3\<rparr>
          (startOf 0) = (Inr ?res, ?final)"
    by code_simp
  have never: "\<forall>w u w' response payload pg.
        alwaysNextNetwork w u (case getApiKey configuredEnv of Inr k \<Rightarrow> k | Inl _ \<Rightarrow> []) = (Resolved response, w') \<and>
        json_body response = Some payload \<and> pagination payload = Some pg
          \<longrightarrow> pg_totalPages pg = None"
    by (auto simp: alwaysNextNetwork_def jsonPage_def)
  have "fetchAllPatients_loop scriptedNetwork ''secret'' 5 10 ?st ?s =
      fetchAllPatients_loop scriptedNetwork ''secret'' 5 10 (carriedPaging 10 ?st barePayload) ?s2"
    using second st attempt2 bodies(1) by blast
  moreover have "fetchAllPatients_loop scriptedNetwork ''secret'' 5 10 ?st2 ?s2 =
      fetchAllPatients_loop scriptedNetwork ''secret'' 5 10 (carriedPaging 10 ?st2 lastPayload) ?s3"
    using third st2 attempt3 bodies(2) by blast
  moreover have "fetchAllPatients_loop scriptedNetwork ''secret'' 5 10 ?st3 ?s3 = (Inr ?st3, ?s3)"
    using stop st3 by blast
  ultimately have loop: "fetchAllPatients_loop scriptedNetwork ''secret'' 5 10 ?st ?s = (Inr ?st3, ?s3)"
    by (simp only: next2 next3)
  have evaluated: "fetchAllPatients_loop scriptedNetwork ''secret'' 5 10 ?st ?s = (Inr ?st3, ?s3)"
    by code_simp
  have "res_totalPages ?res = res_pagesFetched ?res"
    using totals run never by blast
  then show ?thesis using loop evaluated carried run by simp
qed

text \<open>
  C2 as the specification words it fails: the second place of the rule is not the
  \<open>totalPages\<close> of the current response. After a first page that reported
  \<open>totalPages = 3\<close>, a second response with no pagination object and no records gives
  \<open>hasNext = false\<close> by the worded rule, but the loop still holds the 3, finds 2 < 3 and
  fetches a third page.
\<close>

theorem hasNext_stated_counterexample:
  "\<not> statedHasNext 10 2 barePayload \<and>
   page (afterPage 10 initialPaging reportingPayload) = 2 \<and>
   truthy (hasNext (afterPage 10 (afterPage 10 initialPaging reportingPayload) barePayload)) \<and>
   fst (fetchAllPatients scriptedNetwork configuredEnv \<lparr>opt_limit = Some 5, opt_maxPages = Some 10\<rparr>
          (startOf [Resolved (okJson reportingPayload), Resolved (okJson barePayload),
                    Resolved (okJson lastPayload)])) =
     Inr \<lparr>res_patients = [1], res_pagesFetched = 3, res_totalPages = 3, res_limit = 5\<rparr>"
  by code_simp

text \<open>
  A page whose \<open>hasNext\<close> is null ends the run although it reports three pages: the null
  is compared with undefined only and becomes the loop's flag.
\<close>

lemma fetchAllPatients_null_flag:
  "fst (fetchAllPatients scriptedNetwork configuredEnv \<lparr>opt_limit = Some 5, opt_maxPages = Some 10\<rparr>
          (startOf [Resolved (okJson nullFlagPayload), Resolved (okJson barePayload)])) =
     Inr \<lparr>res_patients = [1], res_pagesFetched = 1, res_totalPages = 3, res_limit = 5\<rparr>"
  by code_simp

lemma fetchAllPatients_loop_always_next:
  fixes net :: "('a, 'w) network" and st :: "'a PagingState"
  assumes always: "\<forall>w u. \<exists>response w'. net w u apiKey = (Resolved response, w') \<and> ok response \<and>
      (\<exists>payload pg. json_body response = Some payload \<and> pagination payload = Some pg \<and>
         pg_hasNext pg = JBool True)"
    and "truthy (hasNext st)" and "page st \<le> maxPages + 1"
  shows "\<exists>st' s'. fetchAllPatients_loop net apiKey limit maxPages st s = (Inr st', s') \<and>
     pagesFetched st' = pagesFetched st + (maxPages + 1 - page st) \<and>
     trace s' = trace s @ map (\<lambda>i. Fetch (PatientsUrl i limit)) [page st..maxPages]"
  using assms(2,3)
proof (induction "nat (maxPages + 1 - page st)" arbitrary: st s rule: less_induct)
  case less
  show ?case
  proof (cases "page st \<le> maxPages")
    case False
    then have "page st = maxPages + 1" using less.prems(2) by simp
    then show ?thesis
      using fetchAllPatients_loop_exit [of st maxPages net apiKey limit s] by simp
  next
    case True
    from always obtain response w' payload pg where
      answer: "net (world s) (buildPatientsUrl (page st) limit) apiKey = (Resolved response, w')"
        "ok response" "json_body response = Some payload" "pagination payload = Some pg"
        "pg_hasNext pg = JBool True"
      by blast
    let ?s1 = "\<lparr>world = w', trace = trace s @ [Fetch (buildPatientsUrl (page st) limit)]\<rparr>"
    let ?st1 = "afterPage maxPages st payload"
    have round: "fetchAllPatients_loop net apiKey limit maxPages st s =
        fetchAllPatients_loop net apiKey limit maxPages ?st1 ?s1"
      using fetchAllPatients_loop_round [OF less.prems(1) True, of net apiKey limit s]
        fetchWithRetry_first_ok [where net = net and s = s and apiKey = apiKey
          and u = "buildPatientsUrl (page st) limit", OF answer(1,2)] answer(3)
      by simp
    have next1: "truthy (hasNext ?st1)"
      using answer(4,5) by (simp add: afterPage_def Let_def truthy_def)
    have smaller: "nat (maxPages + 1 - page ?st1) < nat (maxPages + 1 - page st)"
      using True by (simp add: afterPage_fields)
    have bound: "page ?st1 \<le> maxPages + 1"
      using True by (simp add: afterPage_fields)
    from less.hyps [OF smaller next1 bound, of ?s1] obtain st' s' where
      rest: "fetchAllPatients_loop net apiKey limit maxPages ?st1 ?s1 = (Inr st', s')"
        "pagesFetched st' = pagesFetched ?st1 + (maxPages + 1 - page ?st1)"
        "trace s' = trace ?s1 @ map (\<lambda>i. Fetch (PatientsUrl i limit)) [page ?st1..maxPages]"
      by blast
    have "[page st..maxPages] = page st # [page st + 1..maxPages]"
      using True by (simp add: upto_rec1)
    then show ?thesis
      using round rest by (simp add: afterPage_fields buildPatientsUrl_def)
  qed
qed

text \<open>
  C9. Against a service whose every response is successful and reports \<open>hasNext = true\<close>,
  \<open>fetchAllPatients\<close> returns normally after exactly \<open>maxPages\<close> pages: it requests the
  pages 1 to \<open>maxPages\<close>, once each, and raises no error.
\<close>

theorem fetchAllPatients_stops_at_maxPages:
  fixes net :: "('a, 'w) network"
  assumes "getApiKey env = Inr apiKey"
    and "\<forall>w u. \<exists>response w'. net w u apiKey = (Resolved response, w') \<and> ok response \<and>
      (\<exists>payload pg. json_body response = Some payload \<and> pagination payload = Some pg \<and>
         pg_hasNext pg = JBool True)"
    and "maxPages = (case opt_maxPages options of None \<Rightarrow> 10 | Some m \<Rightarrow> m)"
    and "limit = (case opt_limit options of None \<Rightarrow> 5 | Some l \<Rightarrow> l)"
    and "0 \<le> maxPages"
  shows "\<exists>res s'. fetchAllPatients net env options s = (Inr res, s') \<and>
     res_pagesFetched res = maxPages \<and>
     trace s' = trace s @ map (\<lambda>i. Fetch (PatientsUrl i limit)) [1..maxPages]"
proof -
  have "truthy (hasNext (initialPaging :: 'a PagingState))" "page (initialPaging :: 'a PagingState) \<le> maxPages + 1"
    using assms(5) by (simp_all add: initialPaging_def truthy_def)
  from fetchAllPatients_loop_always_next
    [where net = net and apiKey = apiKey and maxPages = maxPages and limit = limit and s = s
       and st = "initialPaging :: 'a PagingState", OF assms(2) this]
  obtain st' s' where
    "fetchAllPatients_loop net apiKey limit maxPages initialPaging s = (Inr st', s')"
    "pagesFetched st' = maxPages"
    "trace s' = trace s @ map (\<lambda>i. Fetch (PatientsUrl i limit)) [1..maxPages]"
    by (auto simp: initialPaging_def)
  then show ?thesis
    using assms(1,3,4) by (simp add: fetchAllPatients_def Let_def)
qed

theorem fetchAllPatients_stops_at_maxPages_witness:
  "\<exists>res s'. fetchAllPatients alwaysNextNetwork configuredEnv \<lparr>opt_limit = Some 20, opt_maxPages = Some 4\<rparr>
        (startOf 0) = (Inr res, s') \<and>
     res_pagesFetched res = 4 \<and>
     trace s' = [Fetch (PatientsUrl 1 20), Fetch (PatientsUrl 2 20), Fetch (PatientsUrl 3 20),
                 Fetch (PatientsUrl 4 20)]"
proof -
  have key: "getApiKey configuredEnv = Inr ''secret''"
    by (simp add: getApiKey_def configuredEnv_def)
  have always: "\<forall>w u. \<exists>response w'. alwaysNextNetwork w u ''secret'' = (Resolved response, w') \<and>
      ok response \<and>
      (\<exists>payload pg. json_body response = Some payload \<and> pagination payload = Some pg \<and>
         pg_hasNext pg = JBool True)"
    by (simp add: alwaysNextNetwork_def jsonPage_def ok_def)
  have pages: "[1..4] = [1, 2, 3, 4 :: int]" by code_simp
  show ?thesis
    using fetchAllPatients_stops_at_maxPages
      [where net = alwaysNextNetwork and env = configuredEnv and apiKey = "''secret''"
         and maxPages = 4 and limit = 20 and s = "startOf 0"
         and options = "\<lparr>opt_limit = Some 20, opt_maxPages = Some 4\<rparr>", OF key always]
    by (simp add: startOf_def pages)
qed

end
